theory Spec2Isabelle
  imports Main "HOL-Library.Word" "HOL-Library.Multiset" "HOL-Library.Sublist"
begin

section \<open>Strings and records\<close>

text \<open>
  A JavaScript string is a sequence of 16-bit code units. \<open>str\<close> turns an ASCII literal
  of the source (\<^verbatim>\<open>'income'\<close>) into that representation.
\<close>

type_synonym jstring = "16 word list"

definition str :: "string \<Rightarrow> jstring" where
  "str s = map of_char s"

text \<open>
  The object literal built in \<^verbatim>\<open>addTransaction\<close>:
  \<^verbatim>\<open>{ id: Date.now(), amount, category, description, date, type }\<close>.
  The \<^verbatim>\<open>id\<close> is an integral Number (a time value in milliseconds); the other five
  fields are the \<^verbatim>\<open>.value\<close> strings of the form controls.
\<close>

record transaction =
  id' :: int
  amount :: jstring
  category :: jstring
  description :: jstring
  date :: jstring
  type :: jstring

section \<open>JSON.stringify on the transactions array\<close>

text \<open>
  \<^verbatim>\<open>saveTransactions\<close> calls \<^verbatim>\<open>JSON.stringify(transactions)\<close>. ECMA-262 (SerializeJSONArray,
  SerializeJSONObject, QuoteJSONString, Number::toString) fixes the text: no white space,
  members in property creation order, strings quoted with the two-character escapes for
  backspace, tab, line feed, form feed, carriage return, quotation mark and backslash,
  a \<^verbatim>\<open>\uXXXX\<close> escape (lower-case hex) for every other code unit below U+0020 and for
  every surrogate that is not part of a pair, and every other code unit as it is.
\<close>

definition hexdigit :: "nat \<Rightarrow> 16 word" where
  "hexdigit d = (if d < 10 then of_nat (48 + d) else of_nat (87 + d))"

definition UnicodeEscape :: "16 word \<Rightarrow> jstring" where
  "UnicodeEscape c =
     [0x5C, 0x75,
      hexdigit (unat c div 4096 mod 16), hexdigit (unat c div 256 mod 16),
      hexdigit (unat c div 16 mod 16), hexdigit (unat c mod 16)]"

definition is_high_surrogate :: "16 word \<Rightarrow> bool" where
  "is_high_surrogate c \<longleftrightarrow> 0xD800 \<le> c \<and> c \<le> 0xDBFF"

definition is_low_surrogate :: "16 word \<Rightarrow> bool" where
  "is_low_surrogate c \<longleftrightarrow> 0xDC00 \<le> c \<and> c \<le> 0xDFFF"

definition quote_unit :: "16 word \<Rightarrow> jstring" where
  "quote_unit c =
     (if c = 0x08 then [0x5C, 0x62]
      else if c = 0x09 then [0x5C, 0x74]
      else if c = 0x0A then [0x5C, 0x6E]
      else if c = 0x0C then [0x5C, 0x66]
      else if c = 0x0D then [0x5C, 0x72]
      else if c = 0x22 then [0x5C, 0x22]
      else if c = 0x5C then [0x5C, 0x5C]
      else if c < 0x20 \<or> is_high_surrogate c \<or> is_low_surrogate c then UnicodeEscape c
      else [c])"

fun quote_units :: "jstring \<Rightarrow> jstring" where
  "quote_units [] = []"
| "quote_units [c] = quote_unit c"
| "quote_units (c # d # ds) =
     (if is_high_surrogate c \<and> is_low_surrogate d then c # d # quote_units ds
      else quote_unit c @ quote_units (d # ds))"

definition QuoteJSONString :: "jstring \<Rightarrow> jstring" where
  "QuoteJSONString s = 0x22 # quote_units s @ [0x22]"

text \<open>
  Number::toString on an integral Number below \<open>10\<^sup>2\<^sup>1\<close> in magnitude: the decimal
  digits, with a minus sign for a negative value.
\<close>

function digits_of :: "nat \<Rightarrow> jstring" where
  "digits_of n = (if n < 10 then [of_nat (48 + n)] else digits_of (n div 10) @ [of_nat (48 + n mod 10)])"
  by pat_completeness auto
termination
  by (relation "measure (\<lambda>n. n)") auto

declare digits_of.simps [simp del]

definition Number_toString :: "int \<Rightarrow> jstring" where
  "Number_toString n = (if n < 0 then 0x2D # digits_of (nat (- n)) else digits_of (nat n))"

definition json_member :: "string \<Rightarrow> jstring \<Rightarrow> jstring" where
  "json_member k v = QuoteJSONString (str k) @ 0x3A # v"

definition SerializeJSONObject :: "transaction \<Rightarrow> jstring" where
  "SerializeJSONObject t =
     0x7B # json_member ''id'' (Number_toString (id' t)) @
     0x2C # json_member ''amount'' (QuoteJSONString (amount t)) @
     0x2C # json_member ''category'' (QuoteJSONString (category t)) @
     0x2C # json_member ''description'' (QuoteJSONString (description t)) @
     0x2C # json_member ''date'' (QuoteJSONString (date t)) @
     0x2C # json_member ''type'' (QuoteJSONString (type t)) @ [0x7D]"

fun join_elements :: "jstring list \<Rightarrow> jstring" where
  "join_elements [] = []"
| "join_elements [e] = e"
| "join_elements (e # es) = e @ 0x2C # join_elements es"

definition JSON_stringify :: "transaction list \<Rightarrow> jstring" where
  "JSON_stringify ts = 0x5B # join_elements (map SerializeJSONObject ts) @ [0x5D]"

section \<open>The ledger: state, persistence, add and delete\<close>

text \<open>
  The script keeps the array \<^verbatim>\<open>transactions\<close> in a closure variable and mirrors it in
  \<^verbatim>\<open>localStorage\<close> under the single key \<^verbatim>\<open>'transactions'\<close>. \<open>storage\<close> is the value of
  \<^verbatim>\<open>localStorage.getItem('transactions')\<close>: \<open>None\<close> for \<^verbatim>\<open>null\<close> (no such key).
  Writes to the storage are taken to succeed.
\<close>

record state =
  transactions :: "transaction list"
  storage :: "jstring option"

definition saveTransactions :: "state \<Rightarrow> state" where
  "saveTransactions s = s\<lparr>storage := Some (JSON_stringify (transactions s))\<rparr>"

text \<open>
  The form controls read by \<^verbatim>\<open>addTransaction\<close>: the \<^verbatim>\<open>.value\<close> of each input.
\<close>

record form =
  amountInput :: jstring
  categoryInput :: jstring
  descriptionInput :: jstring
  dateInput :: jstring
  typeInput :: jstring

text \<open>
  \<^verbatim>\<open>String.prototype.trim\<close> removes leading and trailing WhiteSpace and LineTerminator
  code units (ECMA-262, TrimString): TAB, LF, VT, FF, CR, SP, NBSP, the Unicode space
  separators, LS, PS and ZWNBSP.
\<close>

definition is_white :: "16 word \<Rightarrow> bool" where
  "is_white c \<longleftrightarrow>
     c \<in> {0x09, 0x0A, 0x0B, 0x0C, 0x0D, 0x20, 0xA0, 0x1680, 0x2028, 0x2029, 0x202F,
          0x205F, 0x3000, 0xFEFF} \<or> (0x2000 \<le> c \<and> c \<le> 0x200A)"

definition trim :: "jstring \<Rightarrow> jstring" where
  "trim s = rev (dropWhile is_white (rev (dropWhile is_white s)))"

text \<open>
  \<^verbatim>\<open>showModal(title, text, buttons)\<close>: the dialog shown to the user. The buttons of the
  validation dialog carry no action, so the title and the text are kept.
\<close>

datatype modal = Modal string string

definition newTransaction :: "form \<Rightarrow> int \<Rightarrow> transaction" where
  "newTransaction f now =
     \<lparr>id' = now, amount = amountInput f, category = categoryInput f,
      description = descriptionInput f, date = dateInput f, type = typeInput f\<rparr>"

text \<open>
  \<^verbatim>\<open>addTransaction\<close> of \<^verbatim>\<open>src/script.js\<close>. \<open>now\<close> is the value \<^verbatim>\<open>Date.now()\<close> returns.
  The result pairs the dialog shown (if any) with the state afterwards. The calls that
  follow \<^verbatim>\<open>saveTransactions()\<close> redraw the table and the summary cards from the array
  (\<open>renderTransactions\<close> and \<open>updateSummary\<close> below) and reset the form; they leave the
  array and the storage as they are.
\<close>

definition addTransaction :: "form \<Rightarrow> int \<Rightarrow> state \<Rightarrow> modal option \<times> state" where
  "addTransaction f now s =
     (if trim (amountInput f) = [] \<or> trim (categoryInput f) = [] \<or> trim (dateInput f) = []
         \<or> typeInput f = []
      then (Some (Modal ''Validation Error''
              ''Please fill out all required fields: Amount, Category, Date, and Type.''), s)
      else (None, saveTransactions (s\<lparr>transactions := transactions s @ [newTransaction f now]\<rparr>)))"

text \<open>
  \<^verbatim>\<open>addTransaction\<close> of \<^verbatim>\<open>src/unnamed/part_000\<close>: the gate tests the values for
  falsiness (\<^verbatim>\<open>!amountInput.value\<close>), which for a string is emptiness.
\<close>

definition addTransaction_part_000 :: "form \<Rightarrow> int \<Rightarrow> state \<Rightarrow> modal option \<times> state" where
  "addTransaction_part_000 f now s =
     (if amountInput f = [] \<or> categoryInput f = [] \<or> dateInput f = [] \<or> typeInput f = []
      then (Some (Modal ''Validation Error'' ''Please fill out all required fields.''), s)
      else (None, saveTransactions (s\<lparr>transactions := transactions s @ [newTransaction f now]\<rparr>)))"

text \<open>
  The deletion both variants of \<^verbatim>\<open>handleListClick\<close> run once the user has confirmed
  (the action of the Delete button in \<^verbatim>\<open>src/script.js\<close>, the branch after \<^verbatim>\<open>confirm\<close>
  in \<^verbatim>\<open>src/unnamed/part_000\<close>):
  \<^verbatim>\<open>transactions = transactions.filter(t => t.id !== id); saveTransactions();\<close>.
  The argument is the result of \<^verbatim>\<open>parseInt(dataset.id, 10)\<close>: \<open>None\<close> stands for \<^verbatim>\<open>NaN\<close>,
  which is \<^verbatim>\<open>!==\<close> to every id.
\<close>

definition delete_confirmed :: "int option \<Rightarrow> state \<Rightarrow> state" where
  "delete_confirmed i s =
     saveTransactions (s\<lparr>transactions := filter (\<lambda>t. Some (id' t) \<noteq> i) (transactions s)\<rparr>)"

text \<open>
  A click on the list: \<open>on_delete_btn\<close> says whether the target is (inside) a
  \<^verbatim>\<open>.delete-btn\<close>, \<open>data_id\<close> is \<^verbatim>\<open>parseInt\<close> of its \<^verbatim>\<open>data-id\<close>, \<open>confirmed\<close> the user's
  answer to the confirmation dialog.
\<close>

record click =
  on_delete_btn :: bool
  data_id :: "int option"
  confirmed :: bool

definition handleListClick :: "click \<Rightarrow> state \<Rightarrow> state" where
  "handleListClick e s =
     (if on_delete_btn e \<and> confirmed e then delete_confirmed (data_id e) s else s)"

section \<open>JSON.parse and the initial load\<close>

text \<open>
  The script starts with
  \<^verbatim>\<open>let transactions = JSON.parse(localStorage.getItem('transactions')) || [];\<close>.
  \<^verbatim>\<open>JSON.parse\<close> follows the JSON grammar of ECMA-404 (ECMA-262, 25.5.1): white space is
  space, tab, line feed and carriage return; a string holds any code unit from U+0020 on
  but the quotation mark and the backslash, and the escapes \<^verbatim>\<open>\" \\ \/ \b \f \n \r \t\<close> and
  \<^verbatim>\<open>\uXXXX\<close>; a number is an optional minus, an integer part without leading zero, an
  optional fraction and an optional exponent; the literals are \<^verbatim>\<open>true\<close>, \<^verbatim>\<open>false\<close> and
  \<^verbatim>\<open>null\<close>. On any other text it throws a \<^verbatim>\<open>SyntaxError\<close>.

  \<open>json\<close> is the value read. \<open>JNumber m e\<close> stands for the number literal of exact
  value \<open>m \<times> 10\<^sup>e\<close>; an object keeps its members as written.
\<close>

datatype json =
    JNull
  | JBool bool
  | JNumber int int
  | JString jstring
  | JArray "json list"
  | JObject "(jstring \<times> json) list"

text \<open>
  The parser is a recursive descent with a fuel argument that bounds the nesting of its
  calls: \<open>Parsed v rest\<close> is a value and the text after it, \<open>SyntaxErr\<close> a text outside the
  grammar. \<open>OutOfFuel\<close> does not arise from the fuel \<open>JSON_parse\<close> gives (lemma
  \<open>parse_value_enough_fuel\<close>).
\<close>

datatype 'a parse = SyntaxErr | OutOfFuel | Parsed 'a jstring

definition is_json_ws :: "16 word \<Rightarrow> bool" where
  "is_json_ws c \<longleftrightarrow> c = 0x20 \<or> c = 0x09 \<or> c = 0x0A \<or> c = 0x0D"

definition skip_ws :: "jstring \<Rightarrow> jstring" where
  "skip_ws cs = dropWhile is_json_ws cs"

definition hexval :: "16 word \<Rightarrow> nat option" where
  "hexval c =
     (if 0x30 \<le> c \<and> c \<le> 0x39 then Some (unat c - 48)
      else if 0x61 \<le> c \<and> c \<le> 0x66 then Some (unat c - 87)
      else if 0x41 \<le> c \<and> c \<le> 0x46 then Some (unat c - 55)
      else None)"

definition hex4 :: "16 word \<Rightarrow> 16 word \<Rightarrow> 16 word \<Rightarrow> 16 word \<Rightarrow> 16 word option" where
  "hex4 h1 h2 h3 h4 =
     (case (hexval h1, hexval h2, hexval h3, hexval h4) of
        (Some a, Some b, Some c, Some d) \<Rightarrow> Some (of_nat (4096 * a + 256 * b + 16 * c + d))
      | _ \<Rightarrow> None)"

definition unescape :: "16 word \<Rightarrow> 16 word option" where
  "unescape e =
     (if e = 0x22 then Some 0x22
      else if e = 0x5C then Some 0x5C
      else if e = 0x2F then Some 0x2F
      else if e = 0x62 then Some 0x08
      else if e = 0x66 then Some 0x0C
      else if e = 0x6E then Some 0x0A
      else if e = 0x72 then Some 0x0D
      else if e = 0x74 then Some 0x09
      else None)"

definition with_unit :: "16 word \<Rightarrow> (jstring \<times> jstring) option \<Rightarrow> (jstring \<times> jstring) option" where
  "with_unit c r = (case r of Some (s, rest) \<Rightarrow> Some (c # s, rest) | None \<Rightarrow> None)"

fun parse_chars :: "jstring \<Rightarrow> (jstring \<times> jstring) option" where
  "parse_chars [] = None"
| "parse_chars (c # cs) =
     (if c = 0x22 then Some ([], cs)
      else if c = 0x5C then
        (case cs of
           [] \<Rightarrow> None
         | e # cs' \<Rightarrow>
             if e = 0x75 then
               (case cs' of
                  h1 # h2 # h3 # h4 # rest \<Rightarrow>
                    (case hex4 h1 h2 h3 h4 of
                       Some u \<Rightarrow> with_unit u (parse_chars rest)
                     | None \<Rightarrow> None)
                | _ \<Rightarrow> None)
             else
               (case unescape e of
                  Some u \<Rightarrow> with_unit u (parse_chars cs')
                | None \<Rightarrow> None))
      else if c < 0x20 then None
      else with_unit c (parse_chars cs))"

definition is_digit :: "16 word \<Rightarrow> bool" where
  "is_digit c \<longleftrightarrow> 0x30 \<le> c \<and> c \<le> 0x39"

definition digits_nat :: "jstring \<Rightarrow> nat" where
  "digits_nat ds = foldl (\<lambda>a c. 10 * a + (unat c - 48)) 0 ds"

text \<open>
  The integer part of a JSON number: a single 0, or a run of digits that does not start
  with 0.
\<close>

definition int_part :: "jstring \<Rightarrow> (jstring \<times> jstring) option" where
  "int_part cs =
     (case cs of
        [] \<Rightarrow> None
      | c # cs' \<Rightarrow>
          if c = 0x30 then Some ([c], cs')
          else if is_digit c then Some (takeWhile is_digit cs, dropWhile is_digit cs)
          else None)"

definition frac_part :: "jstring \<Rightarrow> (jstring \<times> jstring) option" where
  "frac_part cs =
     (case cs of
        c # cs' \<Rightarrow>
          if c = 0x2E then
            (if takeWhile is_digit cs' = [] then None
             else Some (takeWhile is_digit cs', dropWhile is_digit cs'))
          else Some ([], cs)
      | [] \<Rightarrow> Some ([], cs))"

definition exp_digits :: "jstring \<Rightarrow> (nat \<times> jstring) option" where
  "exp_digits cs =
     (if takeWhile is_digit cs = [] then None
      else Some (digits_nat (takeWhile is_digit cs), dropWhile is_digit cs))"

definition exp_part :: "jstring \<Rightarrow> (int \<times> jstring) option" where
  "exp_part cs =
     (case cs of
        c # cs' \<Rightarrow>
          if c = 0x65 \<or> c = 0x45 then
            (case cs' of
               s # cs'' \<Rightarrow>
                 if s = 0x2D then map_option (\<lambda>(n, r). (- int n, r)) (exp_digits cs'')
                 else if s = 0x2B then map_option (\<lambda>(n, r). (int n, r)) (exp_digits cs'')
                 else map_option (\<lambda>(n, r). (int n, r)) (exp_digits cs')
             | [] \<Rightarrow> None)
          else Some (0, cs)
      | [] \<Rightarrow> Some (0, cs))"

definition unsigned_number :: "jstring \<Rightarrow> ((int \<times> int) \<times> jstring) option" where
  "unsigned_number cs =
     (case int_part cs of
        None \<Rightarrow> None
      | Some (ip, r1) \<Rightarrow>
          (case frac_part r1 of
             None \<Rightarrow> None
           | Some (fp, r2) \<Rightarrow>
               (case exp_part r2 of
                  None \<Rightarrow> None
                | Some (ex, r3) \<Rightarrow> Some ((int (digits_nat (ip @ fp)), ex - int (length fp)), r3))))"

definition parse_number :: "jstring \<Rightarrow> json parse" where
  "parse_number cs =
     (case cs of
        [] \<Rightarrow> SyntaxErr
      | c # cs' \<Rightarrow>
          if c = 0x2D then
            (case unsigned_number cs' of
               Some ((m, e), rest) \<Rightarrow> Parsed (JNumber (- m) e) rest
             | None \<Rightarrow> SyntaxErr)
          else
            (case unsigned_number cs of
               Some ((m, e), rest) \<Rightarrow> Parsed (JNumber m e) rest
             | None \<Rightarrow> SyntaxErr))"

definition parse_literal :: "jstring \<Rightarrow> json parse" where
  "parse_literal cs =
     (if take 4 cs = str ''true'' then Parsed (JBool True) (drop 4 cs)
      else if take 5 cs = str ''false'' then Parsed (JBool False) (drop 5 cs)
      else if take 4 cs = str ''null'' then Parsed JNull (drop 4 cs)
      else SyntaxErr)"

fun parse_value :: "nat \<Rightarrow> jstring \<Rightarrow> json parse"
  and parse_elements :: "nat \<Rightarrow> jstring \<Rightarrow> json list parse"
  and parse_members :: "nat \<Rightarrow> jstring \<Rightarrow> (jstring \<times> json) list parse" where
  "parse_value 0 cs = OutOfFuel"
| "parse_value (Suc n) cs =
     (case cs of
        [] \<Rightarrow> SyntaxErr
      | c # cs' \<Rightarrow>
          if c = 0x5B then
            (case skip_ws cs' of
               [] \<Rightarrow> SyntaxErr
             | d # ds \<Rightarrow>
                 if d = 0x5D then Parsed (JArray []) ds
                 else (case parse_elements n (d # ds) of
                         Parsed vs rest \<Rightarrow> Parsed (JArray vs) rest
                       | SyntaxErr \<Rightarrow> SyntaxErr
                       | OutOfFuel \<Rightarrow> OutOfFuel))
          else if c = 0x7B then
            (case skip_ws cs' of
               [] \<Rightarrow> SyntaxErr
             | d # ds \<Rightarrow>
                 if d = 0x7D then Parsed (JObject []) ds
                 else (case parse_members n (d # ds) of
                         Parsed kvs rest \<Rightarrow> Parsed (JObject kvs) rest
                       | SyntaxErr \<Rightarrow> SyntaxErr
                       | OutOfFuel \<Rightarrow> OutOfFuel))
          else if c = 0x22 then
            (case parse_chars cs' of
               Some (s, rest) \<Rightarrow> Parsed (JString s) rest
             | None \<Rightarrow> SyntaxErr)
          else if c = 0x2D \<or> is_digit c then parse_number cs
          else parse_literal cs)"
| "parse_elements 0 cs = OutOfFuel"
| "parse_elements (Suc n) cs =
     (case parse_value n cs of
        SyntaxErr \<Rightarrow> SyntaxErr
      | OutOfFuel \<Rightarrow> OutOfFuel
      | Parsed v rest \<Rightarrow>
          (case skip_ws rest of
             [] \<Rightarrow> SyntaxErr
           | c # rest' \<Rightarrow>
               if c = 0x2C then
                 (case parse_elements n (skip_ws rest') of
                    Parsed vs r \<Rightarrow> Parsed (v # vs) r
                  | SyntaxErr \<Rightarrow> SyntaxErr
                  | OutOfFuel \<Rightarrow> OutOfFuel)
               else if c = 0x5D then Parsed [v] rest'
               else SyntaxErr))"
| "parse_members 0 cs = OutOfFuel"
| "parse_members (Suc n) cs =
     (case cs of
        [] \<Rightarrow> SyntaxErr
      | q # cs1 \<Rightarrow>
          if q \<noteq> 0x22 then SyntaxErr
          else
            (case parse_chars cs1 of
               None \<Rightarrow> SyntaxErr
             | Some (k, r1) \<Rightarrow>
                 (case skip_ws r1 of
                    [] \<Rightarrow> SyntaxErr
                  | c # r2 \<Rightarrow>
                      if c \<noteq> 0x3A then SyntaxErr
                      else
                        (case parse_value n (skip_ws r2) of
                           SyntaxErr \<Rightarrow> SyntaxErr
                         | OutOfFuel \<Rightarrow> OutOfFuel
                         | Parsed v r3 \<Rightarrow>
                             (case skip_ws r3 of
                                [] \<Rightarrow> SyntaxErr
                              | d # r4 \<Rightarrow>
                                  if d = 0x2C then
                                    (case parse_members n (skip_ws r4) of
                                       Parsed kvs r \<Rightarrow> Parsed ((k, v) # kvs) r
                                     | SyntaxErr \<Rightarrow> SyntaxErr
                                     | OutOfFuel \<Rightarrow> OutOfFuel)
                                  else if d = 0x7D then Parsed [(k, v)] r4
                                  else SyntaxErr)))))"

datatype error = SyntaxError

definition JSON_parse :: "jstring \<Rightarrow> error + json" where
  "JSON_parse txt =
     (case parse_value (2 * length txt + 1) (skip_ws txt) of
        Parsed v rest \<Rightarrow> if skip_ws rest = [] then Inr v else Inl SyntaxError
      | SyntaxErr \<Rightarrow> Inl SyntaxError
      | OutOfFuel \<Rightarrow> Inl SyntaxError)"


text \<open>
  \<^verbatim>\<open>value || []\<close> tests \<open>ToBoolean\<close> of the parsed value: \<^verbatim>\<open>null\<close>, \<^verbatim>\<open>false\<close>, the empty string
  and a number that is zero as a double are falsy. A number literal is zero as a double
  when its value is zero or rounds to zero, that is, when it is at most \<open>2\<^sup>-\<^sup>1\<^sup>0\<^sup>7\<^sup>5\<close> in
  magnitude.
\<close>

definition number_is_zero :: "int \<Rightarrow> int \<Rightarrow> bool" where
  "number_is_zero m e \<longleftrightarrow> m = 0 \<or> (e < 0 \<and> \<bar>m\<bar> * 2 ^ 1075 \<le> 10 ^ nat (- e))"

fun ToBoolean :: "json \<Rightarrow> bool" where
  "ToBoolean JNull = False"
| "ToBoolean (JBool b) = b"
| "ToBoolean (JNumber m e) = (\<not> number_is_zero m e)"
| "ToBoolean (JString s) = (s \<noteq> [])"
| "ToBoolean (JArray vs) = True"
| "ToBoolean (JObject kvs) = True"

text \<open>
  The value loaded is read as a list of transactions when it is an array of objects
  with exactly the members \<^verbatim>\<open>id, amount, category, description, date, type\<close> in this
  order (the objects \<^verbatim>\<open>addTransaction\<close> builds), the id a number literal whose value is an
  integer of magnitude at most \<open>2\<^sup>5\<^sup>3\<close> (a Number holds it exactly), the others strings.
  Every other value is \<open>Foreign\<close>: the script goes on with it (an array of objects with
  further members, say, serves it as a ledger), but the typed state of this model does
  not describe it, and nothing is stated here about what follows such a load.
\<close>

definition integral_value :: "int \<Rightarrow> int \<Rightarrow> int option" where
  "integral_value m e =
     (if 0 \<le> e then Some (m * 10 ^ nat e)
      else if m mod 10 ^ nat (- e) = 0 then Some (m div 10 ^ nat (- e))
      else None)"

definition safe_integer :: "json \<Rightarrow> int option" where
  "safe_integer v =
     (case v of
        JNumber m e \<Rightarrow>
          (case integral_value m e of
             Some n \<Rightarrow> if \<bar>n\<bar> \<le> 2 ^ 53 then Some n else None
           | None \<Rightarrow> None)
      | _ \<Rightarrow> None)"

definition string_of :: "json \<Rightarrow> jstring option" where
  "string_of v = (case v of JString s \<Rightarrow> Some s | _ \<Rightarrow> None)"

definition as_transaction :: "json \<Rightarrow> transaction option" where
  "as_transaction v =
     (case v of
        JObject kvs \<Rightarrow>
          if map fst kvs = [str ''id'', str ''amount'', str ''category'', str ''description'',
                            str ''date'', str ''type'']
          then
            (case map snd kvs of
               [i, a, c, d, dt, ty] \<Rightarrow>
                 (case (safe_integer i, string_of a, string_of c, string_of d, string_of dt,
                        string_of ty) of
                    (Some i', Some a', Some c', Some d', Some dt', Some ty') \<Rightarrow>
                      Some \<lparr>id' = i', amount = a', category = c', description = d', date = dt',
                            type = ty'\<rparr>
                  | _ \<Rightarrow> None)
             | _ \<Rightarrow> None)
          else None
      | _ \<Rightarrow> None)"

datatype loaded = Ledger "transaction list" | Foreign json

definition as_ledger :: "json \<Rightarrow> loaded" where
  "as_ledger v =
     (case v of
        JArray vs \<Rightarrow>
          (case those (map as_transaction vs) of
             Some ts \<Rightarrow> Ledger ts
           | None \<Rightarrow> Foreign v)
      | _ \<Rightarrow> Foreign v)"

text \<open>
  The initial value of \<^verbatim>\<open>transactions\<close>. \<^verbatim>\<open>getItem\<close> returns \<^verbatim>\<open>null\<close> for a missing key, and
  \<^verbatim>\<open>JSON.parse(null)\<close> parses the text \<^verbatim>\<open>"null"\<close>. A \<^verbatim>\<open>SyntaxError\<close> is not caught anywhere in
  the script: it leaves the \<^verbatim>\<open>DOMContentLoaded\<close> handler.
\<close>

definition initial_transactions :: "jstring option \<Rightarrow> error + loaded" where
  "initial_transactions item =
     (case JSON_parse (case item of None \<Rightarrow> str ''null'' | Some txt \<Rightarrow> txt) of
        Inl e \<Rightarrow> Inl e
      | Inr v \<Rightarrow> Inr (if ToBoolean v then as_ledger v else Ledger []))"

text \<open>The value \<^verbatim>\<open>JSON.parse\<close> reads back from the serialised form of a transaction.\<close>

definition to_json :: "transaction \<Rightarrow> json" where
  "to_json t =
     JObject [(str ''id'', JNumber (id' t) 0), (str ''amount'', JString (amount t)),
              (str ''category'', JString (category t)),
              (str ''description'', JString (description t)),
              (str ''date'', JString (date t)), (str ''type'', JString (type t))]"

section \<open>The summary\<close>

text \<open>
  \<^verbatim>\<open>updateSummary\<close> computes with JavaScript Numbers (IEEE 754 doubles):
  \<^verbatim>\<open>parseFloat\<close>, \<^verbatim>\<open>+\<close>, \<^verbatim>\<open>-\<close> and the literal \<^verbatim>\<open>0\<close>. These four are built into the
  language, not code of the script, and are taken as parameters: \<open>'n\<close> is the type of
  Numbers. What is proved of \<open>updateSummary\<close> holds for every interpretation of them,
  the doubles included.
\<close>

record 'n Number =
  parseFloat :: "jstring \<Rightarrow> 'n"
  num_add :: "'n \<Rightarrow> 'n \<Rightarrow> 'n"
  num_sub :: "'n \<Rightarrow> 'n \<Rightarrow> 'n"
  num_zero :: "'n"

record 'n summary =
  income :: "'n"
  expense :: "'n"
  balance :: "'n"

text \<open>
  \<^verbatim>\<open>transactions.filter(t => t.type === 'income').reduce((acc, t) => acc + parseFloat(t.amount), 0)\<close>:
  \<^verbatim>\<open>reduce\<close> with an initial value is a left fold.
\<close>

definition updateSummary :: "'n Number \<Rightarrow> transaction list \<Rightarrow> 'n summary" where
  "updateSummary N ts =
     (let income = foldl (\<lambda>acc t. num_add N acc (parseFloat N (amount t))) (num_zero N)
                     (filter (\<lambda>t. type t = str ''income'') ts);
          expense = foldl (\<lambda>acc t. num_add N acc (parseFloat N (amount t))) (num_zero N)
                     (filter (\<lambda>t. type t = str ''expense'') ts);
          balance = num_sub N income expense
      in \<lparr>income = income, expense = expense, balance = balance\<rparr>)"

text \<open>
  The specification's reading of a total: one pass over the records in their order,
  adding the parsed amount of each record of the given type to the running total.
\<close>

fun sum_of_type :: "'n Number \<Rightarrow> jstring \<Rightarrow> 'n \<Rightarrow> transaction list \<Rightarrow> 'n" where
  "sum_of_type N ty acc [] = acc"
| "sum_of_type N ty acc (t # ts) =
     sum_of_type N ty (if type t = ty then num_add N acc (parseFloat N (amount t)) else acc) ts"

text \<open>
  An interpretation used to run the summary on examples: amounts written as plain
  digit strings, read as integers, with exact arithmetic.
\<close>

fun digits_value :: "nat \<Rightarrow> jstring \<Rightarrow> nat option" where
  "digits_value acc [] = Some acc"
| "digits_value acc (c # cs) =
     (if 0x30 \<le> c \<and> c \<le> 0x39 then digits_value (10 * acc + (unat c - 48)) cs else None)"

definition whole_Numbers :: "int Number" where
  "whole_Numbers =
     \<lparr>parseFloat = (\<lambda>s. case digits_value 0 s of Some n \<Rightarrow> int n | None \<Rightarrow> 0),
      num_add = (+), num_sub = (-), num_zero = 0\<rparr>"

section \<open>The rendered list\<close>

text \<open>
  \<^verbatim>\<open>new Date(t.date)\<close> parses the string with \<^verbatim>\<open>Date.parse\<close>. ECMA-262 fixes the result for
  the date-only form \<^verbatim>\<open>YYYY-MM-DD\<close> of a calendar date, the form an
  \<^verbatim>\<open><input type="date">\<close> yields: UTC midnight of that day, in milliseconds since
  1970-01-01 (MakeDay, MakeDate). \<open>None\<close> stands for an invalid Date, whose time value is
  \<^verbatim>\<open>NaN\<close>.
\<close>

definition DayFromYear :: "int \<Rightarrow> int" where
  "DayFromYear y =
     365 * (y - 1970) + (y - 1969) div 4 - (y - 1901) div 100 + (y - 1601) div 400"

definition InLeapYear :: "int \<Rightarrow> bool" where
  "InLeapYear y \<longleftrightarrow> (y mod 4 = 0 \<and> y mod 100 \<noteq> 0) \<or> y mod 400 = 0"

definition DaysInMonth :: "int \<Rightarrow> nat \<Rightarrow> int" where
  "DaysInMonth y m =
     (if m = 2 then (if InLeapYear y then 29 else 28)
      else if m \<in> {4, 6, 9, 11} then 30 else 31)"

definition DaysBeforeMonth :: "int \<Rightarrow> nat \<Rightarrow> int" where
  "DaysBeforeMonth y m = (\<Sum>k \<leftarrow> [1..<m]. DaysInMonth y k)"

definition MakeDay :: "int \<Rightarrow> nat \<Rightarrow> int \<Rightarrow> int" where
  "MakeDay y m d = DayFromYear y + DaysBeforeMonth y m + d - 1"

definition msPerDay :: int where
  "msPerDay = 86400000"

definition iso_date :: "jstring \<Rightarrow> int option" where
  "iso_date s =
     (case s of
        [y1, y2, y3, y4, h1, m1, m2, h2, d1, d2] \<Rightarrow>
          (case (digits_value 0 [y1, y2, y3, y4], digits_value 0 [m1, m2],
                 digits_value 0 [d1, d2]) of
             (Some y, Some m, Some d) \<Rightarrow>
               if h1 = 0x2D \<and> h2 = 0x2D \<and> 1 \<le> m \<and> m \<le> 12 \<and> 1 \<le> d
                  \<and> int d \<le> DaysInMonth (int y) m
               then Some (MakeDay (int y) m (int d) * msPerDay) else None
           | _ \<Rightarrow> None)
      | _ \<Rightarrow> None)"

text \<open>
  On every other string the result of \<^verbatim>\<open>Date.parse\<close> is not modelled: \<open>other\<close> is what
  the engine's \<^verbatim>\<open>Date.parse\<close> returns there, a parameter.
\<close>

definition Date_parse :: "(jstring \<Rightarrow> int option) \<Rightarrow> jstring \<Rightarrow> int option" where
  "Date_parse other s = (case iso_date s of Some ms \<Rightarrow> Some ms | None \<Rightarrow> other s)"

text \<open>
  The comparison function \<^verbatim>\<open>(a, b) => new Date(b.date) - new Date(a.date)\<close>. Time values
  are integers, and the sign of the difference of two of them is the sign of the exact
  difference; with an invalid Date on either side the difference is \<^verbatim>\<open>NaN\<close> (\<open>None\<close>).
\<close>

definition compareFn :: "(jstring \<Rightarrow> int option) \<Rightarrow> transaction \<Rightarrow> transaction \<Rightarrow> int option" where
  "compareFn other a b =
     (case (Date_parse other (date b), Date_parse other (date a)) of
        (Some tb, Some ta) \<Rightarrow> Some (tb - ta)
      | _ \<Rightarrow> None)"

text \<open>
  \<^verbatim>\<open>Array.prototype.sort(comparefn)\<close>. A \<^verbatim>\<open>NaN\<close> returned by the comparison function is
  read as \<open>0\<close> (ECMA-262, SortCompare), and \<open>a\<close> is placed after \<open>b\<close> when
  \<^verbatim>\<open>comparefn(a, b) > 0\<close>.
\<close>

definition order_of :: "int option \<Rightarrow> int" where
  "order_of v = (case v of Some n \<Rightarrow> n | None \<Rightarrow> 0)"

definition comes_after :: "int option \<Rightarrow> bool" where
  "comes_after v = (case v of Some n \<Rightarrow> 0 < n | None \<Rightarrow> False)"

text \<open>
  ECMA-262 fixes the result of the sort only for a comparison function that is a
  consistent comparator for the elements of the array: it never returns \<^verbatim>\<open>NaN\<close> on them,
  every element equals itself, equality is symmetric, and equality, less and greater
  are transitive. The comparison of the script returns \<^verbatim>\<open>NaN\<close> whenever one of the two
  dates is unreadable.
\<close>

definition eqCF :: "('a \<Rightarrow> 'a \<Rightarrow> int option) \<Rightarrow> 'a \<Rightarrow> 'a \<Rightarrow> bool" where
  "eqCF cmp a b = (case cmp a b of Some v \<Rightarrow> v = 0 | None \<Rightarrow> False)"

definition lessCF :: "('a \<Rightarrow> 'a \<Rightarrow> int option) \<Rightarrow> 'a \<Rightarrow> 'a \<Rightarrow> bool" where
  "lessCF cmp a b = (case cmp a b of Some v \<Rightarrow> v < 0 | None \<Rightarrow> False)"

definition greaterCF :: "('a \<Rightarrow> 'a \<Rightarrow> int option) \<Rightarrow> 'a \<Rightarrow> 'a \<Rightarrow> bool" where
  "greaterCF cmp a b = (case cmp a b of Some v \<Rightarrow> 0 < v | None \<Rightarrow> False)"

definition consistent_comparator :: "('a \<Rightarrow> 'a \<Rightarrow> int option) \<Rightarrow> 'a list \<Rightarrow> bool" where
  "consistent_comparator cmp xs \<longleftrightarrow>
     list_all (\<lambda>a. list_all (\<lambda>b. cmp a b \<noteq> None) xs) xs \<and>
     list_all (\<lambda>a. eqCF cmp a a) xs \<and>
     list_all (\<lambda>a. list_all (\<lambda>b. eqCF cmp a b \<longrightarrow> eqCF cmp b a) xs) xs \<and>
     list_all (\<lambda>a. list_all (\<lambda>b. list_all (\<lambda>c.
        (eqCF cmp a b \<and> eqCF cmp b c \<longrightarrow> eqCF cmp a c) \<and>
        (lessCF cmp a b \<and> lessCF cmp b c \<longrightarrow> lessCF cmp a c) \<and>
        (greaterCF cmp a b \<and> greaterCF cmp b c \<longrightarrow> greaterCF cmp a c)) xs) xs) xs"

text \<open>
  For a consistent comparator the result is the one stable sorted arrangement
  (ECMA-262 since ES2019): the stable insertion sort computes it.
\<close>

fun insert_by :: "('a \<Rightarrow> 'a \<Rightarrow> int option) \<Rightarrow> 'a \<Rightarrow> 'a list \<Rightarrow> 'a list" where
  "insert_by cmp x [] = [x]"
| "insert_by cmp x (y # ys) =
     (if comes_after (cmp x y) then y # insert_by cmp x ys else x # y # ys)"

fun stable_sort :: "('a \<Rightarrow> 'a \<Rightarrow> int option) \<Rightarrow> 'a list \<Rightarrow> 'a list" where
  "stable_sort cmp [] = []"
| "stable_sort cmp (x # xs) = insert_by cmp x (stable_sort cmp xs)"

text \<open>
  For any other comparison function the order is implementation-defined: it is what the
  sort of the engine at hand leaves, \<open>engine\<close>, a parameter. The result still holds the
  elements of the array, each as often as the array does.
\<close>

definition Array_sort ::
  "(('a \<Rightarrow> 'a \<Rightarrow> int option) \<Rightarrow> 'a list \<Rightarrow> 'a list) \<Rightarrow> ('a \<Rightarrow> 'a \<Rightarrow> int option) \<Rightarrow> 'a list \<Rightarrow> 'a list"
  where
  "Array_sort engine cmp xs =
     (if consistent_comparator cmp xs then stable_sort cmp xs
      else if mset (engine cmp xs) = mset xs then engine cmp xs
      else xs)"

text \<open>
  One engine: V8 (\<^verbatim>\<open>third_party/v8/builtins/array-sort.tq\<close>, ArrayTimSortImpl). For an array
  of fewer than 64 elements its minimum run length is the length of the array, so the
  sort is one step: \<^verbatim>\<open>CountAndMakeRun\<close> finds the run the array starts with (reversing it
  when it is strictly descending), and \<^verbatim>\<open>BinaryInsertionSort\<close> inserts the remaining
  elements into it one by one, each at the index a binary search gives. An array of
  fewer than two elements is left as it is. (From 64 elements on V8 merges several
  runs; that part is not described here.)
\<close>

fun run_rest :: "('a \<Rightarrow> 'a \<Rightarrow> int option) \<Rightarrow> bool \<Rightarrow> 'a \<Rightarrow> 'a list \<Rightarrow> nat" where
  "run_rest cmp descending previous [] = 0"
| "run_rest cmp descending previous (current # others) =
     (if descending then
        (if 0 \<le> order_of (cmp current previous) then 0
         else Suc (run_rest cmp descending current others))
      else
        (if order_of (cmp current previous) < 0 then 0
         else Suc (run_rest cmp descending current others)))"

definition CountAndMakeRun :: "('a \<Rightarrow> 'a \<Rightarrow> int option) \<Rightarrow> 'a list \<Rightarrow> nat \<times> 'a list" where
  "CountAndMakeRun cmp xs =
     (case xs of
        first # second # others \<Rightarrow>
          (let descending = (order_of (cmp second first) < 0);
               runLength = 2 + run_rest cmp descending second others
           in (runLength,
               if descending then rev (take runLength xs) @ drop runLength xs else xs))
      | _ \<Rightarrow> (length xs, xs))"

function binary_search ::
  "('a \<Rightarrow> 'a \<Rightarrow> int option) \<Rightarrow> 'a \<Rightarrow> 'a list \<Rightarrow> nat \<Rightarrow> nat \<Rightarrow> nat" where
  "binary_search cmp pivot run left right =
     (if left < right \<and> right \<le> length run then
        (let mid = left + (right - left) div 2 in
         if order_of (cmp pivot (run ! mid)) < 0 then binary_search cmp pivot run left mid
         else binary_search cmp pivot run (mid + 1) right)
      else left)"
  by pat_completeness auto
termination
  by (relation "measure (\<lambda>(cmp, pivot, run, left, right). right - left)") auto

declare binary_search.simps [simp del]

definition insert_pivot :: "('a \<Rightarrow> 'a \<Rightarrow> int option) \<Rightarrow> 'a list \<Rightarrow> 'a \<Rightarrow> 'a list" where
  "insert_pivot cmp run pivot =
     (let left = binary_search cmp pivot run 0 (length run)
      in take left run @ pivot # drop left run)"

definition BinaryInsertionSort :: "('a \<Rightarrow> 'a \<Rightarrow> int option) \<Rightarrow> 'a list \<Rightarrow> 'a list \<Rightarrow> 'a list" where
  "BinaryInsertionSort cmp run rest = foldl (insert_pivot cmp) run rest"

definition ArrayTimSort_short :: "('a \<Rightarrow> 'a \<Rightarrow> int option) \<Rightarrow> 'a list \<Rightarrow> 'a list" where
  "ArrayTimSort_short cmp xs =
     (if length xs < 2 then xs
      else (case CountAndMakeRun cmp xs of
              (runLength, ys) \<Rightarrow> BinaryInsertionSort cmp (take runLength ys) (drop runLength ys)))"

text \<open>
  \<^verbatim>\<open>renderTransactions\<close>: the rows appended to the table, one for each transaction of
  \<^verbatim>\<open>sortedTransactions = [...transactions].sort(...)\<close>, in that order. With no transaction
  the table holds the placeholder row only.
\<close>

definition sortedTransactions ::
  "((transaction \<Rightarrow> transaction \<Rightarrow> int option) \<Rightarrow> transaction list \<Rightarrow> transaction list) \<Rightarrow>
   (jstring \<Rightarrow> int option) \<Rightarrow> transaction list \<Rightarrow> transaction list" where
  "sortedTransactions engine other ts = Array_sort engine (compareFn other) ts"

definition renderTransactions ::
  "((transaction \<Rightarrow> transaction \<Rightarrow> int option) \<Rightarrow> transaction list \<Rightarrow> transaction list) \<Rightarrow>
   (jstring \<Rightarrow> int option) \<Rightarrow> state \<Rightarrow> transaction list" where
  "renderTransactions engine other s =
     (if length (transactions s) = 0 then []
      else sortedTransactions engine other (transactions s))"

text \<open>
  The order the rendered list is claimed to have: \<open>a\<close> may stand before \<open>b\<close> when both
  dates are valid and the time value of \<open>b\<close> is not later than that of \<open>a\<close>.
\<close>

definition date_desc :: "(jstring \<Rightarrow> int option) \<Rightarrow> transaction \<Rightarrow> transaction \<Rightarrow> bool" where
  "date_desc other a b =
     (case (Date_parse other (date a), Date_parse other (date b)) of
        (Some ta, Some tb) \<Rightarrow> tb \<le> ta
      | _ \<Rightarrow> False)"

section \<open>Example data\<close>

definition entry :: "int \<Rightarrow> string \<Rightarrow> string \<Rightarrow> string \<Rightarrow> transaction" where
  "entry i a d ty =
     \<lparr>id' = i, amount = str a, category = str ''Food'', description = [], date = str d,
      type = str ty\<rparr>"

definition ledger3 :: state where
  "ledger3 =
     \<lparr>transactions =
        [entry 1 ''100'' ''2024-01-01'' ''income'', entry 2 ''30'' ''2024-03-01'' ''expense'',
         entry 3 ''50'' ''2024-02-01'' ''expense''],
      storage = None\<rparr>"

definition food_form :: form where
  "food_form =
     \<lparr>amountInput = str ''50.00'', categoryInput = str ''Food'', descriptionInput = [],
      dateInput = str ''2024-05-01'', typeInput = str ''expense''\<rparr>"

definition blank_category_form :: form where
  "blank_category_form = food_form\<lparr>categoryInput := [0x20]\<rparr>"

text \<open>An engine whose \<^verbatim>\<open>Date.parse\<close> accepts the calendar dates only.\<close>

definition no_other_format :: "jstring \<Rightarrow> int option" where
  "no_other_format s = None"

text \<open>
  Two ledgers with a date \<^verbatim>\<open>new Date\<close> cannot read (a stored blob edited by hand, or a
  date typed into a control that is not a date picker).
\<close>

definition unreadable_ledger3 :: state where
  "unreadable_ledger3 =
     \<lparr>transactions =
        [entry 1 ''100'' ''2024-01-01'' ''income'', entry 2 ''30'' ''soon'' ''expense'',
         entry 3 ''50'' ''2024-03-01'' ''expense''],
      storage = None\<rparr>"

definition unreadable_ledger7 :: state where
  "unreadable_ledger7 =
     \<lparr>transactions =
        [entry 1 ''10'' ''2024-01-01'' ''income'', entry 2 ''20'' ''2024-02-01'' ''expense'',
         entry 3 ''30'' ''soon'' ''expense'', entry 4 ''40'' ''2024-02-01'' ''income'',
         entry 5 ''50'' ''2024-02-01'' ''income'', entry 6 ''60'' ''2024-02-01'' ''income'',
         entry 7 ''70'' ''2024-02-01'' ''income''],
      storage = None\<rparr>"

definition same_day_ledger :: state where
  "same_day_ledger =
     \<lparr>transactions =
        [entry 1 ''10'' ''2024-02-01'' ''income'', entry 2 ''20'' ''2024-03-01'' ''expense'',
         entry 3 ''30'' ''2024-02-01'' ''expense'', entry 4 ''40'' ''2024-02-01'' ''income''],
      storage = None\<rparr>"

section \<open>Deleting\<close>

lemma transactions_saveTransactions: "transactions (saveTransactions s) = transactions s"
  by (simp add: saveTransactions_def)

lemma transactions_delete_confirmed:
  "transactions (delete_confirmed i s) = filter (\<lambda>t. Some (id' t) \<noteq> i) (transactions s)"
  by (simp add: delete_confirmed_def transactions_saveTransactions)

lemma ledger3_ids: "map id' (transactions ledger3) = [1, 2, 3]"
  by (simp add: ledger3_def entry_def)

lemma ledger3_delete:
  "transactions (delete_confirmed (Some 2) ledger3) =
     [entry 1 ''100'' ''2024-01-01'' ''income'', entry 3 ''50'' ''2024-02-01'' ''expense'']"
  by (simp add: transactions_delete_confirmed ledger3_def entry_def)

text \<open>
  C3. A confirmed click on a Delete button runs the deletion of its id. After the
  deletion of an id no record of the collection has that id. When no record has the
  id, the collection afterwards is the list it was before. The deletion is a total
  function of the state, with no failing branch: nothing is raised, whether or not the
  id is found. An id that is not a number (\<^verbatim>\<open>NaN\<close>) matches no record.
\<close>

theorem remove_no_such_id:
  "handleListClick \<lparr>on_delete_btn = True, data_id = Some i, confirmed = True\<rparr> s =
     delete_confirmed (Some i) s \<and>
   (\<forall>t \<in> set (transactions (delete_confirmed (Some i) s)). id' t \<noteq> i) \<and>
   ((\<forall>t \<in> set (transactions s). id' t \<noteq> i) \<longrightarrow>
      transactions (delete_confirmed (Some i) s) = transactions s) \<and>
   transactions (delete_confirmed None s) = transactions s"
  by (simp add: transactions_delete_confirmed handleListClick_def)

theorem remove_no_such_id_witness:
  "map id' (transactions (delete_confirmed (Some 2) ledger3)) = [1, 3] \<and>
   transactions (delete_confirmed (Some 7) ledger3) = transactions ledger3"
  using remove_no_such_id [of 2 ledger3] remove_no_such_id [of 7 ledger3]
  by (simp add: ledger3_delete) (simp add: ledger3_def entry_def)

text \<open>
  C9. The deletion touches nothing but the records with the given id: the list
  afterwards is a subsequence of the list before (relative order kept, no record
  altered or added), the records with another id are the same list before and after,
  and each of them occurs as often as before.
\<close>

theorem remove_frame:
  "subseq (transactions (delete_confirmed (Some i) s)) (transactions s) \<and>
   filter (\<lambda>t. id' t \<noteq> i) (transactions (delete_confirmed (Some i) s)) =
     filter (\<lambda>t. id' t \<noteq> i) (transactions s) \<and>
   (\<forall>t. id' t \<noteq> i \<longrightarrow>
      count_list (transactions (delete_confirmed (Some i) s)) t = count_list (transactions s) t)"
proof -
  let ?ts = "transactions s"
  have keep: "count_list (filter (\<lambda>t. id' t \<noteq> i) xs) t = count_list xs t"
    if "id' t \<noteq> i" for t and xs :: "transaction list"
    using that by (induction xs) auto
  show ?thesis
    by (simp add: transactions_delete_confirmed keep)
qed

theorem remove_frame_witness:
  "transactions (delete_confirmed (Some 2) ledger3) =
     [entry 1 ''100'' ''2024-01-01'' ''income'', entry 3 ''50'' ''2024-02-01'' ''expense''] \<and>
   subseq (transactions (delete_confirmed (Some 2) ledger3)) (transactions ledger3)"
  using remove_frame [of 2 ledger3] by (simp add: ledger3_delete)

section \<open>Adding\<close>

lemma trim_Nil: "trim [] = []"
  by (simp add: trim_def)

lemma dropWhile_all_white:
  assumes "\<forall>c \<in> set (dropWhile is_white s). is_white c"
  shows "dropWhile is_white s = []"
proof (cases "dropWhile is_white s")
  case Nil
  then show ?thesis .
next
  case (Cons c cs)
  then have "\<not> is_white c"
    using hd_dropWhile [of is_white s] by auto
  moreover have "is_white c"
    using assms Cons by simp
  ultimately show ?thesis by simp
qed

lemma trim_eq_Nil_iff: "trim s = [] \<longleftrightarrow> (\<forall>c \<in> set s. is_white c)"
proof
  assume "trim s = []"
  then have "dropWhile is_white (rev (dropWhile is_white s)) = []"
    by (simp add: trim_def)
  then have "\<forall>c \<in> set (dropWhile is_white s). is_white c"
    by (simp add: dropWhile_eq_Nil_conv)
  then have "dropWhile is_white s = []"
    by (rule dropWhile_all_white)
  then show "\<forall>c \<in> set s. is_white c"
    by (simp add: dropWhile_eq_Nil_conv)
next
  assume "\<forall>c \<in> set s. is_white c"
  then have "dropWhile is_white s = []"
    by (simp add: dropWhile_eq_Nil_conv)
  then show "trim s = []"
    unfolding trim_def by (simp only: rev.simps dropWhile.simps)
qed

lemma mset_insert_by: "mset (insert_by cmp x ys) = add_mset x (mset ys)"
  by (induction ys) auto

lemma mset_stable_sort: "mset (stable_sort cmp xs) = mset xs"
  by (induction xs) (auto simp: mset_insert_by)

lemma mset_Array_sort: "mset (Array_sort engine cmp xs) = mset xs"
  by (simp add: Array_sort_def mset_stable_sort)

lemma mset_renderTransactions:
  "mset (renderTransactions engine other s) = mset (transactions s)"
  by (simp add: renderTransactions_def sortedTransactions_def mset_Array_sort)

lemma length_renderTransactions:
  "length (renderTransactions engine other s) = length (transactions s)"
  using mset_renderTransactions [of engine other s] by (metis size_mset)

text \<open>
  C4. When the amount, the category, the date or the type of an add request is empty,
  both variants show the validation dialog and return the state they were given: the
  collection and the stored blob are untouched.
\<close>

theorem add_rejects_empty_field:
  assumes "amountInput f = [] \<or> categoryInput f = [] \<or> dateInput f = [] \<or> typeInput f = []"
  shows "addTransaction f now s =
           (Some (Modal ''Validation Error''
              ''Please fill out all required fields: Amount, Category, Date, and Type.''), s) \<and>
         addTransaction_part_000 f now s =
           (Some (Modal ''Validation Error'' ''Please fill out all required fields.''), s)"
  using assms by (auto simp: addTransaction_def addTransaction_part_000_def trim_Nil)

theorem add_rejects_empty_field_witness:
  "categoryInput (food_form\<lparr>categoryInput := []\<rparr>) = [] \<and>
   snd (addTransaction (food_form\<lparr>categoryInput := []\<rparr>) 1714521600000 ledger3) = ledger3 \<and>
   snd (addTransaction_part_000 (food_form\<lparr>categoryInput := []\<rparr>) 1714521600000 ledger3) = ledger3 \<and>
   fst (addTransaction_part_000 (food_form\<lparr>categoryInput := []\<rparr>) 1714521600000 ledger3) =
     Some (Modal ''Validation Error'' ''Please fill out all required fields.'')"
  using add_rejects_empty_field [of "food_form\<lparr>categoryInput := []\<rparr>" 1714521600000 ledger3]
  by simp

text \<open>
  C10. In \<^verbatim>\<open>src/script.js\<close> the gate trims the amount, the category and the date before
  testing them: when one of the three consists of white space only, the add is rejected
  with the validation dialog and the state is returned as it was. The gate is stricter
  than the emptiness test of the other variant: a category of one space passes there
  and is rejected here.
\<close>

theorem add_rejects_blank_field:
  assumes "(\<forall>c \<in> set (amountInput f). is_white c) \<or> (\<forall>c \<in> set (categoryInput f). is_white c)
           \<or> (\<forall>c \<in> set (dateInput f). is_white c)"
  shows "addTransaction f now s =
           (Some (Modal ''Validation Error''
              ''Please fill out all required fields: Amount, Category, Date, and Type.''), s) \<and>
         fst (addTransaction_part_000 (food_form\<lparr>categoryInput := [0x20]\<rparr>) now s) = None \<and>
         fst (addTransaction (food_form\<lparr>categoryInput := [0x20]\<rparr>) now s) \<noteq> None"
proof -
  have "trim (amountInput f) = [] \<or> trim (categoryInput f) = [] \<or> trim (dateInput f) = []"
    using assms by (simp add: trim_eq_Nil_iff)
  then have "addTransaction f now s =
           (Some (Modal ''Validation Error''
              ''Please fill out all required fields: Amount, Category, Date, and Type.''), s)"
    by (auto simp: addTransaction_def)
  moreover have "fst (addTransaction_part_000 (food_form\<lparr>categoryInput := [0x20]\<rparr>) now s) = None"
    by (simp add: addTransaction_part_000_def food_form_def str_def)
  moreover have "trim [0x20] = []"
    by (simp add: trim_def is_white_def)
  then have "fst (addTransaction (food_form\<lparr>categoryInput := [0x20]\<rparr>) now s) \<noteq> None"
    by (simp add: addTransaction_def)
  ultimately show ?thesis by simp
qed

theorem add_rejects_blank_field_witness:
  "list_all is_white (dateInput (food_form\<lparr>dateInput := [0x20, 0x09, 0xA0]\<rparr>)) \<and>
   snd (addTransaction (food_form\<lparr>dateInput := [0x20, 0x09, 0xA0]\<rparr>) 1714521600000 ledger3) = ledger3"
proof -
  have w: "\<forall>c \<in> set (dateInput (food_form\<lparr>dateInput := [0x20, 0x09, 0xA0]\<rparr>)). is_white c"
    by (simp add: is_white_def)
  then have "list_all is_white (dateInput (food_form\<lparr>dateInput := [0x20, 0x09, 0xA0]\<rparr>))"
    by (simp add: list_all_iff)
  then show ?thesis
    using add_rejects_blank_field [of "food_form\<lparr>dateInput := [0x20, 0x09, 0xA0]\<rparr>" 1714521600000 ledger3] w
    by simp
qed

text \<open>
  C2, as the claim states it, fails in \<^verbatim>\<open>src/script.js\<close>: a request whose amount,
  category, date and type are all non-empty, the category being a single space, is
  rejected by the trimming gate, and the list is as long as before.
\<close>

theorem add_nonempty_counterexample:
  "amountInput blank_category_form \<noteq> [] \<and> categoryInput blank_category_form \<noteq> [] \<and>
   dateInput blank_category_form \<noteq> [] \<and> typeInput blank_category_form \<noteq> [] \<and>
   transactions (snd (addTransaction blank_category_form 1714521600000 ledger3)) =
     transactions ledger3 \<and>
   length (renderTransactions ArrayTimSort_short no_other_format
             (snd (addTransaction blank_category_form 1714521600000 ledger3))) =
     length (renderTransactions ArrayTimSort_short no_other_format ledger3)"
  by (simp add: blank_category_form_def food_form_def str_def addTransaction_def trim_def
      is_white_def length_renderTransactions)

text \<open>
  C2, amended. An add request that passes the gate of its variant (in \<^verbatim>\<open>src/script.js\<close>:
  amount, category and date non-empty after trimming and a non-empty type; in
  \<^verbatim>\<open>src/unnamed/part_000\<close>: the four values non-empty) shows no dialog and appends
  exactly one record: the array is the old one followed by the new record, the stored
  blob is the serialised new array, the rendered list has one row more and holds the
  rows of before plus the new record, whose five fields are the values of the form and
  whose id is the value of \<^verbatim>\<open>Date.now()\<close>.
\<close>

theorem add_appends_one:
  assumes "add = addTransaction \<and> trim (amountInput f) \<noteq> [] \<and> trim (categoryInput f) \<noteq> []
             \<and> trim (dateInput f) \<noteq> [] \<and> typeInput f \<noteq> []
           \<or> add = addTransaction_part_000 \<and> amountInput f \<noteq> [] \<and> categoryInput f \<noteq> []
             \<and> dateInput f \<noteq> [] \<and> typeInput f \<noteq> []"
  shows "fst (add f now s) = None \<and>
         transactions (snd (add f now s)) = transactions s @ [newTransaction f now] \<and>
         storage (snd (add f now s)) =
           Some (JSON_stringify (transactions s @ [newTransaction f now])) \<and>
         length (renderTransactions engine other (snd (add f now s))) =
           length (renderTransactions engine other s) + 1 \<and>
         mset (renderTransactions engine other (snd (add f now s))) =
           add_mset (newTransaction f now) (mset (renderTransactions engine other s)) \<and>
         newTransaction f now =
           \<lparr>id' = now, amount = amountInput f, category = categoryInput f,
            description = descriptionInput f, date = dateInput f, type = typeInput f\<rparr>"
proof -
  have r: "add f now s =
      (None, saveTransactions (s\<lparr>transactions := transactions s @ [newTransaction f now]\<rparr>))"
    using assms by (auto simp: addTransaction_def addTransaction_part_000_def)
  show ?thesis
    by (simp add: r length_renderTransactions mset_renderTransactions
        transactions_saveTransactions newTransaction_def saveTransactions_def)
qed

theorem add_appends_one_witness:
  "trim (categoryInput food_form) = str ''Food'' \<and>
   transactions (snd (addTransaction food_form 1714521600000 ledger3)) =
     transactions ledger3 @ [entry 1714521600000 ''50.00'' ''2024-05-01'' ''expense''] \<and>
   transactions (snd (addTransaction_part_000 blank_category_form 1714521600000 ledger3)) =
     transactions ledger3 @ [newTransaction blank_category_form 1714521600000] \<and>
   length (renderTransactions ArrayTimSort_short no_other_format
             (snd (addTransaction food_form 1714521600000 ledger3))) = 4"
proof -
  have t: "trim (amountInput food_form) = str ''50.00''"
    "trim (categoryInput food_form) = str ''Food''"
    "trim (dateInput food_form) = str ''2024-05-01''" "typeInput food_form = str ''expense''"
    by (simp_all add: food_form_def trim_def str_def is_white_def)
  have n: "newTransaction food_form 1714521600000 =
      entry 1714521600000 ''50.00'' ''2024-05-01'' ''expense''"
    by (simp add: newTransaction_def food_form_def entry_def)
  have b: "amountInput blank_category_form \<noteq> []" "categoryInput blank_category_form \<noteq> []"
    "dateInput blank_category_form \<noteq> []" "typeInput blank_category_form \<noteq> []"
    by (simp_all add: blank_category_form_def food_form_def str_def)
  have l: "length (renderTransactions ArrayTimSort_short no_other_format ledger3) = 3"
    by (simp add: length_renderTransactions ledger3_def)
  show ?thesis
    using add_appends_one [where add = addTransaction and f = food_form
        and now = 1714521600000 and s = ledger3 and other = no_other_format
        and engine = ArrayTimSort_short]
      add_appends_one [where add = addTransaction_part_000 and f = blank_category_form
        and now = 1714521600000 and s = ledger3 and other = no_other_format
        and engine = ArrayTimSort_short]
      t b n l
    by (simp add: str_def)
qed

section \<open>The totals\<close>

lemma foldl_filter_sum_of_type:
  "foldl (\<lambda>acc t. num_add N acc (parseFloat N (amount t))) acc (filter (\<lambda>t. type t = ty) ts) =
     sum_of_type N ty acc ts"
  by (induction ts arbitrary: acc) auto

text \<open>
  C1. For every list of records, the income of the summary is the total, from zero, of
  the parsed amounts of the records of type \<^verbatim>\<open>income\<close>, the expense is that of the records
  of type \<^verbatim>\<open>expense\<close>, and the balance is the income minus the expense. On the empty list
  income and expense are zero, and so is the balance, \<open>0 - 0\<close> being \<open>0\<close> (as it is for
  doubles).
\<close>

theorem summarize_totals:
  "income (updateSummary N ts) = sum_of_type N (str ''income'') (num_zero N) ts \<and>
   expense (updateSummary N ts) = sum_of_type N (str ''expense'') (num_zero N) ts \<and>
   balance (updateSummary N ts) =
     num_sub N (income (updateSummary N ts)) (expense (updateSummary N ts)) \<and>
   (num_sub N (num_zero N) (num_zero N) = num_zero N \<longrightarrow>
      updateSummary N [] = \<lparr>income = num_zero N, expense = num_zero N, balance = num_zero N\<rparr>)"
  by (simp add: updateSummary_def Let_def foldl_filter_sum_of_type)

theorem summarize_totals_witness:
  "updateSummary whole_Numbers (transactions ledger3) =
     \<lparr>income = 100, expense = 80, balance = 20\<rparr> \<and>
   updateSummary whole_Numbers [] = \<lparr>income = 0, expense = 0, balance = 0\<rparr>"
  using summarize_totals [of whole_Numbers "transactions ledger3"]
    summarize_totals [of whole_Numbers "[]"]
  by (simp add: whole_Numbers_def ledger3_def entry_def str_def updateSummary_def)

section \<open>The order of the rendered list\<close>

lemma set_insert_by: "set (insert_by cmp x ys) = insert x (set ys)"
  by (induction ys) auto

lemma set_stable_sort: "set (stable_sort cmp xs) = set xs"
  by (induction xs) (auto simp: set_insert_by)

lemma comes_after_compareFn:
  assumes "Date_parse other (date x) = Some tx" "Date_parse other (date y) = Some ty"
  shows "comes_after (compareFn other x y) \<longleftrightarrow> tx < ty"
  using assms by (simp add: comes_after_def compareFn_def)

lemma date_desc_iff:
  assumes "Date_parse other (date x) = Some tx" "Date_parse other (date y) = Some ty"
  shows "date_desc other x y \<longleftrightarrow> ty \<le> tx"
  using assms by (simp add: date_desc_def)

lemma sorted_insert_by:
  assumes "\<forall>t \<in> set (x # ys). Date_parse other (date t) \<noteq> None"
    and "sorted_wrt (date_desc other) ys"
  shows "sorted_wrt (date_desc other) (insert_by (compareFn other) x ys)"
  using assms
proof (induction ys)
  case Nil
  then show ?case by simp
next
  case (Cons y ys)
  from Cons.prems obtain tx ty where tx: "Date_parse other (date x) = Some tx"
    and ty: "Date_parse other (date y) = Some ty"
    by auto
  show ?case
  proof (cases "tx < ty")
    case True
    have "sorted_wrt (date_desc other) (insert_by (compareFn other) x ys)"
      using Cons by simp
    moreover have "date_desc other y x"
      using True tx ty by (simp add: date_desc_iff)
    ultimately show ?thesis
      using True Cons.prems tx ty
      by (auto simp: comes_after_compareFn set_insert_by)
  next
    case False
    have "date_desc other x y"
      using False tx ty by (simp add: date_desc_iff)
    moreover have "date_desc other x z" if "z \<in> set ys" for z
    proof -
      have "Date_parse other (date z) \<noteq> None"
        using Cons.prems that by simp
      then obtain tz where tz: "Date_parse other (date z) = Some tz"
        by auto
      have "date_desc other y z"
        using Cons.prems that by simp
      then have "tz \<le> ty"
        using ty tz by (simp add: date_desc_iff)
      then show ?thesis
        using False tx tz by (simp add: date_desc_iff)
    qed
    ultimately show ?thesis
      using False Cons.prems tx ty
      by (auto simp: comes_after_compareFn)
  qed
qed

lemma sorted_stable_sort:
  assumes "\<forall>t \<in> set xs. Date_parse other (date t) \<noteq> None"
  shows "sorted_wrt (date_desc other) (stable_sort (compareFn other) xs)"
  using assms
  by (induction xs) (auto intro!: sorted_insert_by simp: set_stable_sort)

lemma filter_insert_by:
  assumes "\<And>y. P x \<Longrightarrow> P y \<Longrightarrow> \<not> comes_after (cmp x y)"
  shows "filter P (insert_by cmp x ys) = (if P x then x # filter P ys else filter P ys)"
  using assms by (induction ys) auto

lemma filter_stable_sort:
  assumes "\<And>x y. P x \<Longrightarrow> P y \<Longrightarrow> \<not> comes_after (cmp x y)"
  shows "filter P (stable_sort cmp xs) = filter P xs"
  using assms by (induction xs) (simp_all add: filter_insert_by)

lemma same_time_not_after:
  assumes "Date_parse other (date x) = Date_parse other (date y)"
  shows "\<not> comes_after (compareFn other x y)"
  using assms by (simp add: comes_after_def compareFn_def split: option.splits)

lemma iso_2024: "iso_date (str ''2024-01-01'') = Some 1704067200000"
  "iso_date (str ''2024-02-01'') = Some 1706745600000"
  "iso_date (str ''2024-03-01'') = Some 1709251200000"
  by (simp_all add: iso_date_def str_def DaysInMonth_def InLeapYear_def MakeDay_def DayFromYear_def
     DaysBeforeMonth_def msPerDay_def upt_rec)


lemma Date_parse_calendar_date: "iso_date s = Some ms \<Longrightarrow> Date_parse other s = Some ms"
  by (simp add: Date_parse_def)

lemma consistent_compareFn:
  assumes "\<forall>t \<in> set xs. Date_parse other (date t) \<noteq> None"
  shows "consistent_comparator (compareFn other) xs"
proof -
  have v: "\<exists>tx. Date_parse other (date x) = Some tx" if "x \<in> set xs" for x
    using assms that by auto
  have c: "compareFn other a b = Some (tb - ta)"
    if "Date_parse other (date a) = Some ta" "Date_parse other (date b) = Some tb" for a b ta tb
    using that by (simp add: compareFn_def)
  have 1: "compareFn other a b \<noteq> None" if "a \<in> set xs" "b \<in> set xs" for a b
    using v [OF that(1)] v [OF that(2)] c by auto
  have 2: "eqCF (compareFn other) a a" if "a \<in> set xs" for a
    using v [OF that] c by (auto simp: eqCF_def)
  have 3: "eqCF (compareFn other) b a"
    if "a \<in> set xs" "b \<in> set xs" "eqCF (compareFn other) a b" for a b
    using v [OF that(1)] v [OF that(2)] that(3) c by (auto simp: eqCF_def)
  have 4: "eqCF (compareFn other) a d"
    if "a \<in> set xs" "b \<in> set xs" "d \<in> set xs" "eqCF (compareFn other) a b"
      "eqCF (compareFn other) b d" for a b d
    using v [OF that(1)] v [OF that(2)] v [OF that(3)] that(4,5) c by (auto simp: eqCF_def)
  have 5: "lessCF (compareFn other) a d"
    if "a \<in> set xs" "b \<in> set xs" "d \<in> set xs" "lessCF (compareFn other) a b"
      "lessCF (compareFn other) b d" for a b d
    using v [OF that(1)] v [OF that(2)] v [OF that(3)] that(4,5) c by (auto simp: lessCF_def)
  have 6: "greaterCF (compareFn other) a d"
    if "a \<in> set xs" "b \<in> set xs" "d \<in> set xs" "greaterCF (compareFn other) a b"
      "greaterCF (compareFn other) b d" for a b d
    using v [OF that(1)] v [OF that(2)] v [OF that(3)] that(4,5) c by (auto simp: greaterCF_def)
  show ?thesis
    unfolding consistent_comparator_def list_all_iff
    using 1 2 3 4 5 6 by blast
qed

lemma unreadable_not_consistent:
  assumes "t \<in> set xs" "Date_parse other (date t) = None"
  shows "\<not> consistent_comparator (compareFn other) xs"
proof
  assume "consistent_comparator (compareFn other) xs"
  then have "compareFn other t t \<noteq> None"
    using assms(1) unfolding consistent_comparator_def list_all_iff by blast
  then show False
    using assms(2) by (simp add: compareFn_def)
qed

lemma sortedTransactions_readable:
  assumes "\<forall>t \<in> set ts. Date_parse other (date t) \<noteq> None"
  shows "sortedTransactions engine other ts = stable_sort (compareFn other) ts"
  using consistent_compareFn [OF assms] by (simp add: sortedTransactions_def Array_sort_def)

lemma renderTransactions_readable:
  assumes "\<forall>t \<in> set (transactions s). Date_parse other (date t) \<noteq> None"
  shows "renderTransactions engine other s = stable_sort (compareFn other) (transactions s)"
  using sortedTransactions_readable [OF assms] by (cases "transactions s") (simp_all add: renderTransactions_def)

subsection \<open>The sort of V8 on short arrays\<close>

lemma mset_insert_pivot: "mset (insert_pivot cmp run pivot) = add_mset pivot (mset run)"
proof -
  have "mset (take n run @ pivot # drop n run) = add_mset pivot (mset run)" for n
    by (metis append_take_drop_id mset.simps(2) mset_append union_mset_add_mset_right)
  then show ?thesis
    by (simp add: insert_pivot_def Let_def)
qed

lemma mset_BinaryInsertionSort: "mset (BinaryInsertionSort cmp run rest) = mset run + mset rest"
  unfolding BinaryInsertionSort_def
  by (induction rest arbitrary: run) (simp_all add: mset_insert_pivot)

lemma mset_take_drop: "mset (take n zs) + mset (drop n zs) = mset zs"
  by (metis append_take_drop_id mset_append)

lemma mset_CountAndMakeRun: "mset (snd (CountAndMakeRun cmp xs)) = mset xs"
  by (simp add: CountAndMakeRun_def Let_def mset_take_drop split: list.splits)

lemma mset_ArrayTimSort_short: "mset (ArrayTimSort_short cmp xs) = mset xs"
proof (cases "CountAndMakeRun cmp xs")
  case (Pair n ys)
  then have "mset ys = mset xs"
    using mset_CountAndMakeRun [of cmp xs] by simp
  moreover have "mset (take n ys) + mset (drop n ys) = mset ys"
    by (metis append_take_drop_id mset_append)
  ultimately show ?thesis
    by (simp add: ArrayTimSort_short_def Pair mset_BinaryInsertionSort)
qed

lemma Array_sort_V8_inconsistent:
  assumes "\<not> consistent_comparator cmp xs"
  shows "Array_sort ArrayTimSort_short cmp xs = ArrayTimSort_short cmp xs"
  using assms by (simp add: Array_sort_def mset_ArrayTimSort_short)

lemma soon_unreadable: "Date_parse no_other_format (str ''soon'') = None"
  by (simp add: Date_parse_def no_other_format_def iso_date_def str_def)

lemma V8_unreadable_ledger3_list:
  "ArrayTimSort_short (compareFn no_other_format) (transactions unreadable_ledger3) =
     transactions unreadable_ledger3"
  by code_simp

lemma V8_unreadable_ledger7_list:
  "ArrayTimSort_short (compareFn no_other_format) (transactions unreadable_ledger7) =
     [entry 2 ''20'' ''2024-02-01'' ''expense'', entry 4 ''40'' ''2024-02-01'' ''income'',
      entry 5 ''50'' ''2024-02-01'' ''income'', entry 7 ''70'' ''2024-02-01'' ''income'',
      entry 1 ''10'' ''2024-01-01'' ''income'', entry 3 ''30'' ''soon'' ''expense'',
      entry 6 ''60'' ''2024-02-01'' ''income'']"
  by code_simp

lemma render_unreadable_ledger3:
  "renderTransactions ArrayTimSort_short no_other_format unreadable_ledger3 =
     transactions unreadable_ledger3"
proof -
  have "entry 2 ''30'' ''soon'' ''expense'' \<in> set (transactions unreadable_ledger3)"
    by (simp add: unreadable_ledger3_def)
  moreover have "Date_parse no_other_format (date (entry 2 ''30'' ''soon'' ''expense'')) = None"
    by (simp add: entry_def soon_unreadable)
  ultimately have "\<not> consistent_comparator (compareFn no_other_format)
      (transactions unreadable_ledger3)"
    by (rule unreadable_not_consistent)
  then have "Array_sort ArrayTimSort_short (compareFn no_other_format)
      (transactions unreadable_ledger3) =
      ArrayTimSort_short (compareFn no_other_format) (transactions unreadable_ledger3)"
    by (rule Array_sort_V8_inconsistent)
  moreover have "length (transactions unreadable_ledger3) \<noteq> 0"
    by (simp add: unreadable_ledger3_def)
  ultimately show ?thesis
    by (simp only: renderTransactions_def sortedTransactions_def if_False
        V8_unreadable_ledger3_list)
qed

lemma render_unreadable_ledger7:
  "renderTransactions ArrayTimSort_short no_other_format unreadable_ledger7 =
     [entry 2 ''20'' ''2024-02-01'' ''expense'', entry 4 ''40'' ''2024-02-01'' ''income'',
      entry 5 ''50'' ''2024-02-01'' ''income'', entry 7 ''70'' ''2024-02-01'' ''income'',
      entry 1 ''10'' ''2024-01-01'' ''income'', entry 3 ''30'' ''soon'' ''expense'',
      entry 6 ''60'' ''2024-02-01'' ''income'']"
proof -
  have "entry 3 ''30'' ''soon'' ''expense'' \<in> set (transactions unreadable_ledger7)"
    by (simp add: unreadable_ledger7_def)
  moreover have "Date_parse no_other_format (date (entry 3 ''30'' ''soon'' ''expense'')) = None"
    by (simp add: entry_def soon_unreadable)
  ultimately have "\<not> consistent_comparator (compareFn no_other_format)
      (transactions unreadable_ledger7)"
    by (rule unreadable_not_consistent)
  then have "Array_sort ArrayTimSort_short (compareFn no_other_format)
      (transactions unreadable_ledger7) =
      ArrayTimSort_short (compareFn no_other_format) (transactions unreadable_ledger7)"
    by (rule Array_sort_V8_inconsistent)
  moreover have "length (transactions unreadable_ledger7) \<noteq> 0"
    by (simp add: unreadable_ledger7_def)
  ultimately show ?thesis
    by (simp only: renderTransactions_def sortedTransactions_def if_False
        V8_unreadable_ledger7_list)
qed

lemma readable_2024:
  "Date_parse other (str ''2024-01-01'') = Some 1704067200000"
  "Date_parse other (str ''2024-02-01'') = Some 1706745600000"
  "Date_parse other (str ''2024-03-01'') = Some 1709251200000"
  by (simp_all add: Date_parse_def iso_2024)

lemma ledger3_readable:
  "\<forall>t \<in> set (transactions ledger3). Date_parse other (date t) \<noteq> None"
  by (simp add: ledger3_def entry_def readable_2024)

lemma ledger3_sorted:
  "renderTransactions engine other ledger3 =
     [entry 2 ''30'' ''2024-03-01'' ''expense'', entry 3 ''50'' ''2024-02-01'' ''expense'',
      entry 1 ''100'' ''2024-01-01'' ''income'']"
  by (simp add: renderTransactions_readable [OF ledger3_readable])
    (simp add: ledger3_def entry_def comes_after_def compareFn_def readable_2024)

subsection \<open>The two claims on the order\<close>

text \<open>
  C6, as the claim states it, fails for a collection with a date \<^verbatim>\<open>new Date\<close> cannot read.
  For records dated 2024-01-01, \<^verbatim>\<open>soon\<close> and 2024-03-01, inserted in that order, every
  comparison with the second record is \<^verbatim>\<open>NaN\<close>, V8 takes the array for one ascending run
  and leaves it as it is: the row of 2024-01-01 stands before the row of 2024-03-01.
\<close>

theorem list_unreadable_date_counterexample:
  "renderTransactions ArrayTimSort_short no_other_format unreadable_ledger3 =
     [entry 1 ''100'' ''2024-01-01'' ''income'', entry 2 ''30'' ''soon'' ''expense'',
      entry 3 ''50'' ''2024-03-01'' ''expense''] \<and>
   \<not> date_desc no_other_format (entry 1 ''100'' ''2024-01-01'' ''income'')
       (entry 3 ''50'' ''2024-03-01'' ''expense'') \<and>
   \<not> sorted_wrt (date_desc no_other_format)
       (renderTransactions ArrayTimSort_short no_other_format unreadable_ledger3)"
proof -
  have d: "\<not> date_desc no_other_format (entry 1 ''100'' ''2024-01-01'' ''income'')
      (entry 3 ''50'' ''2024-03-01'' ''expense'')"
    by (simp add: date_desc_def entry_def Date_parse_def iso_2024)
  have r: "renderTransactions ArrayTimSort_short no_other_format unreadable_ledger3 =
     [entry 1 ''100'' ''2024-01-01'' ''income'', entry 2 ''30'' ''soon'' ''expense'',
      entry 3 ''50'' ''2024-03-01'' ''expense'']"
    unfolding render_unreadable_ledger3 by (simp add: unreadable_ledger3_def)
  show ?thesis
    using d by (simp add: r)
qed

text \<open>
  C6, amended. When the date of every record is one \<^verbatim>\<open>new Date\<close> can read (as every
  calendar date \<^verbatim>\<open>YYYY-MM-DD\<close> is), then on every engine the rendered list holds the records
  of the collection, each as often as the collection does, in descending order of their
  dates' time values. For records dated 2024-01-01, 2024-03-01 and 2024-02-01, inserted
  in that order, the rendered order is 2024-03-01, 2024-02-01, 2024-01-01, whatever
  their other fields.
\<close>

theorem list_date_descending:
  "((\<forall>t \<in> set (transactions s). Date_parse other (date t) \<noteq> None) \<longrightarrow>
      sorted_wrt (date_desc other) (renderTransactions engine other s) \<and>
      mset (renderTransactions engine other s) = mset (transactions s)) \<and>
   (date a = str ''2024-01-01'' \<and> date b = str ''2024-03-01'' \<and> date c = str ''2024-02-01'' \<longrightarrow>
      renderTransactions engine other \<lparr>transactions = [a, b, c], storage = blob\<rparr> = [b, c, a])"
proof -
  have "sorted_wrt (date_desc other) (renderTransactions engine other s)"
    if "\<forall>t \<in> set (transactions s). Date_parse other (date t) \<noteq> None"
    using that by (simp add: renderTransactions_readable sorted_stable_sort)
  moreover have "renderTransactions engine other \<lparr>transactions = [a, b, c], storage = blob\<rparr> =
      [b, c, a]"
    if d: "date a = str ''2024-01-01''" "date b = str ''2024-03-01''" "date c = str ''2024-02-01''"
  proof -
    have "\<forall>t \<in> set (transactions \<lparr>transactions = [a, b, c], storage = blob\<rparr>).
        Date_parse other (date t) \<noteq> None"
      by (simp add: d readable_2024)
    then have "renderTransactions engine other \<lparr>transactions = [a, b, c], storage = blob\<rparr> =
        stable_sort (compareFn other) [a, b, c]"
      by (simp add: renderTransactions_readable)
    then show ?thesis
      by (simp add: comes_after_def compareFn_def d readable_2024)
  qed
  ultimately show ?thesis
    by (simp add: mset_renderTransactions)
qed

theorem list_date_descending_witness:
  "list_all (\<lambda>t. Date_parse no_other_format (date t) \<noteq> None) (transactions ledger3) \<and>
   map date (transactions ledger3) = [str ''2024-01-01'', str ''2024-03-01'', str ''2024-02-01''] \<and>
   map date (renderTransactions ArrayTimSort_short no_other_format ledger3) =
     [str ''2024-03-01'', str ''2024-02-01'', str ''2024-01-01''] \<and>
   sorted_wrt (date_desc no_other_format)
     (renderTransactions ArrayTimSort_short no_other_format ledger3)"
proof -
  have v: "\<forall>t \<in> set (transactions ledger3). Date_parse no_other_format (date t) \<noteq> None"
    by (rule ledger3_readable)
  then have "list_all (\<lambda>t. Date_parse no_other_format (date t) \<noteq> None) (transactions ledger3)"
    by (simp add: list_all_iff)
  moreover have "map date (transactions ledger3) =
      [str ''2024-01-01'', str ''2024-03-01'', str ''2024-02-01'']"
    by (simp add: ledger3_def entry_def)
  moreover have "map date (renderTransactions ArrayTimSort_short no_other_format ledger3) =
      [str ''2024-03-01'', str ''2024-02-01'', str ''2024-01-01'']"
    by (simp add: ledger3_sorted entry_def)
  ultimately show ?thesis
    using list_date_descending [of ledger3 no_other_format ArrayTimSort_short] v by blast
qed

text \<open>
  C8, as the claim states it, fails for a collection with a date \<^verbatim>\<open>new Date\<close> cannot read.
  For seven records with ids 1 to 7, dated 2024-01-01, 2024-02-01, \<^verbatim>\<open>soon\<close> and four times
  2024-02-01, V8 renders the ids in the order 2, 4, 5, 7, 1, 3, 6: the records 6 and 7
  have the same date, 6 was added first, and 7 stands before it.
\<close>

theorem list_unstable_counterexample:
  "map id' (transactions unreadable_ledger7) = [1, 2, 3, 4, 5, 6, 7] \<and>
   map date (transactions unreadable_ledger7) =
     [str ''2024-01-01'', str ''2024-02-01'', str ''soon'', str ''2024-02-01'',
      str ''2024-02-01'', str ''2024-02-01'', str ''2024-02-01''] \<and>
   map id' (renderTransactions ArrayTimSort_short no_other_format unreadable_ledger7) =
     [2, 4, 5, 7, 1, 3, 6] \<and>
   map date (renderTransactions ArrayTimSort_short no_other_format unreadable_ledger7) =
     [str ''2024-02-01'', str ''2024-02-01'', str ''2024-02-01'', str ''2024-02-01'',
      str ''2024-01-01'', str ''soon'', str ''2024-02-01'']"
  by (simp add: render_unreadable_ledger7) (simp add: unreadable_ledger7_def entry_def)

text \<open>
  C8, amended. When the date of every record is one \<^verbatim>\<open>new Date\<close> can read, the sort keeps
  records of equal date in the order of the array, on every engine: the records of any
  one date string stand in the rendered list in the order in which they were added, and
  so do the records of any one time value.
\<close>

theorem list_sort_stable:
  assumes "\<forall>t \<in> set (transactions s). Date_parse other (date t) \<noteq> None"
  shows "filter (\<lambda>t. date t = d) (renderTransactions engine other s) =
           filter (\<lambda>t. date t = d) (transactions s) \<and>
         filter (\<lambda>t. Date_parse other (date t) = k) (renderTransactions engine other s) =
           filter (\<lambda>t. Date_parse other (date t) = k) (transactions s)"
proof -
  have "filter (\<lambda>t. date t = d) (stable_sort (compareFn other) xs) = filter (\<lambda>t. date t = d) xs"
    for xs
    by (rule filter_stable_sort) (simp add: same_time_not_after)
  moreover have "filter (\<lambda>t. Date_parse other (date t) = k) (stable_sort (compareFn other) xs) =
      filter (\<lambda>t. Date_parse other (date t) = k) xs" for xs
    by (rule filter_stable_sort) (simp add: same_time_not_after)
  ultimately show ?thesis
    by (simp add: renderTransactions_readable [OF assms])
qed

theorem list_sort_stable_witness:
  "list_all (\<lambda>t. Date_parse no_other_format (date t) \<noteq> None) (transactions same_day_ledger) \<and>
   map id' (transactions same_day_ledger) = [1, 2, 3, 4] \<and>
   map id' (renderTransactions ArrayTimSort_short no_other_format same_day_ledger) = [2, 1, 3, 4] \<and>
   map id' (filter (\<lambda>t. date t = str ''2024-02-01'')
              (renderTransactions ArrayTimSort_short no_other_format same_day_ledger)) = [1, 3, 4]"
proof -
  have v: "\<forall>t \<in> set (transactions same_day_ledger).
      Date_parse no_other_format (date t) \<noteq> None"
    by (simp add: same_day_ledger_def entry_def readable_2024)
  then have l: "list_all (\<lambda>t. Date_parse no_other_format (date t) \<noteq> None)
      (transactions same_day_ledger)"
    by (simp add: list_all_iff)
  have r: "map id' (renderTransactions ArrayTimSort_short no_other_format same_day_ledger) =
      [2, 1, 3, 4]"
    by (simp add: renderTransactions_readable [OF v])
      (simp add: same_day_ledger_def entry_def comes_after_def compareFn_def readable_2024)
  have f: "map id' (filter (\<lambda>t. date t = str ''2024-02-01'') (transactions same_day_ledger)) =
      [1, 3, 4]"
    by (simp add: same_day_ledger_def entry_def str_def)
  have i: "map id' (transactions same_day_ledger) = [1, 2, 3, 4]"
    by (simp add: same_day_ledger_def entry_def)
  show ?thesis
    using list_sort_stable [OF v, of "str ''2024-02-01''" ArrayTimSort_short None] l r f i
    by simp
qed

section \<open>Serialising and parsing back\<close>

subsection \<open>Strings\<close>

lemma unat_offset:
  assumes "k + d < 65536"
  shows "unat (of_nat k + of_nat d :: 16 word) = k + d"
proof -
  have "unat (of_nat (k + d) :: 16 word) = (k + d) mod 2 ^ LENGTH(16)"
    by (rule unat_of_nat)
  then show ?thesis
    using assms by simp
qed

lemma hexval_hexdigit: "d < 16 \<Longrightarrow> hexval (hexdigit d) = Some d"
  using unat_offset [of 48 d] unat_offset [of 87 d]
  by (simp add: hexval_def hexdigit_def word_le_nat_alt)

lemma unat_16: "unat (c :: 16 word) < 65536"
  using unsigned_less [of c, where 'a = nat] by simp

lemma nibbles_sum:
  fixes n :: nat
  shows "4096 * (n div 4096 mod 16) + 256 * (n div 256 mod 16) + 16 * (n div 16 mod 16) + n mod 16
         = n mod 65536"
proof -
  have a: "n mod 65536 = 16 * (n div 16 mod 4096) + n mod 16"
    using mod_mult2_eq [of n 16 4096] by simp
  have b: "n div 16 mod 4096 = 16 * (n div 16 div 16 mod 256) + n div 16 mod 16"
    using mod_mult2_eq [of "n div 16" 16 256] by simp
  have c: "n div 256 mod 256 = 16 * (n div 256 div 16 mod 16) + n div 256 mod 16"
    using mod_mult2_eq [of "n div 256" 16 16] by simp
  have d: "n div 16 div 16 = n div 256" "n div 256 div 16 = n div 4096"
    by (simp_all add: div_mult2_eq [symmetric])
  show ?thesis
    using a b c d by simp
qed


lemma hex4_Some:
  assumes "hexval h1 = Some a" "hexval h2 = Some b" "hexval h3 = Some c" "hexval h4 = Some d"
    and "w = of_nat (4096 * a + 256 * b + 16 * c + d)"
  shows "hex4 h1 h2 h3 h4 = Some w"
  unfolding hex4_def using assms by (simp del: of_nat_add of_nat_mult)

lemma hex4_UnicodeEscape:
  "hex4 (hexdigit (unat c div 4096 mod 16)) (hexdigit (unat c div 256 mod 16))
        (hexdigit (unat c div 16 mod 16)) (hexdigit (unat c mod 16)) = Some c"
proof (rule hex4_Some)
  have "unat c mod 65536 = unat c"
    using unat_16 [of c] by simp
  then have "4096 * (unat c div 4096 mod 16) + 256 * (unat c div 256 mod 16) +
      16 * (unat c div 16 mod 16) + unat c mod 16 = unat c"
    by (simp only: nibbles_sum)
  then have "of_nat (4096 * (unat c div 4096 mod 16) + 256 * (unat c div 256 mod 16) +
      16 * (unat c div 16 mod 16) + unat c mod 16) = (of_nat (unat c) :: 16 word)"
    by (simp only:)
  then show "c = of_nat (4096 * (unat c div 4096 mod 16) + 256 * (unat c div 256 mod 16) +
      16 * (unat c div 16 mod 16) + unat c mod 16)"
    by (simp only: of_nat_unat ucast_id)
qed (simp_all add: hexval_hexdigit)

lemma parse_chars_UnicodeEscape:
  "parse_chars (UnicodeEscape c @ cs) = with_unit c (parse_chars cs)"
  by (simp add: UnicodeEscape_def hex4_UnicodeEscape)

lemma surrogate_plain:
  assumes "is_high_surrogate c \<or> is_low_surrogate c"
  shows "c \<noteq> 0x22" "c \<noteq> 0x5C" "\<not> c < 0x20"
  using assms by (auto simp: is_high_surrogate_def is_low_surrogate_def word_le_nat_alt word_less_nat_alt)

lemma parse_chars_plain:
  "c \<noteq> 0x22 \<Longrightarrow> c \<noteq> 0x5C \<Longrightarrow> \<not> c < 0x20 \<Longrightarrow> parse_chars (c # cs) = with_unit c (parse_chars cs)"
  by simp

lemma parse_chars_quote_unit:
  "parse_chars (quote_unit c @ cs) = with_unit c (parse_chars cs)"
proof -
  consider "c = 0x08" | "c = 0x09" | "c = 0x0A" | "c = 0x0C" | "c = 0x0D" | "c = 0x22" | "c = 0x5C"
    | "c \<notin> {0x08, 0x09, 0x0A, 0x0C, 0x0D, 0x22, 0x5C}" "c < 0x20 \<or> is_high_surrogate c \<or> is_low_surrogate c"
    | "c \<notin> {0x08, 0x09, 0x0A, 0x0C, 0x0D, 0x22, 0x5C}" "\<not> (c < 0x20 \<or> is_high_surrogate c \<or> is_low_surrogate c)"
    by blast
  then show ?thesis
  proof cases
    case 8
    then have "quote_unit c = UnicodeEscape c"
      by (simp add: quote_unit_def)
    then show ?thesis
      by (simp only: parse_chars_UnicodeEscape)
  next
    case 9
    then have "quote_unit c = [c]"
      by (simp add: quote_unit_def)
    with 9 show ?thesis
      by simp
  qed (simp_all add: quote_unit_def unescape_def)
qed


lemma parse_chars_quote_units:
  "parse_chars (quote_units s @ 0x22 # rest) = Some (s, rest)"
proof (induction s rule: quote_units.induct)
  case 1
  show ?case by simp
next
  case (2 c)
  have "parse_chars (quote_unit c @ 0x22 # rest) = with_unit c (parse_chars (0x22 # rest))"
    by (rule parse_chars_quote_unit)
  then show ?case
    by (simp add: with_unit_def)
next
  case (3 c d ds)
  show ?case
  proof (cases "is_high_surrogate c \<and> is_low_surrogate d")
    case True
    have pc: "parse_chars (c # xs) = with_unit c (parse_chars xs)" for xs
      by (rule parse_chars_plain [OF surrogate_plain(1) surrogate_plain(2) surrogate_plain(3)])
        (simp_all add: True)
    have pd: "parse_chars (d # xs) = with_unit d (parse_chars xs)" for xs
      by (rule parse_chars_plain [OF surrogate_plain(1) surrogate_plain(2) surrogate_plain(3)])
        (simp_all add: True)
    have q: "quote_units (c # d # ds) @ 0x22 # rest = c # d # quote_units ds @ 0x22 # rest"
      using True by simp
    have ih: "parse_chars (quote_units ds @ 0x22 # rest) = Some (ds, rest)"
      using 3(1) True by simp
    show ?thesis
      unfolding q by (simp only: pc pd ih with_unit_def option.case prod.case)
  next
    case False
    have q: "quote_units (c # d # ds) @ 0x22 # rest =
        quote_unit c @ quote_units (d # ds) @ 0x22 # rest"
      using False by auto
    have ih: "parse_chars (quote_units (d # ds) @ 0x22 # rest) = Some (d # ds, rest)"
      using 3(2) False by blast
    show ?thesis
      unfolding q by (simp only: parse_chars_quote_unit ih with_unit_def option.case prod.case)
  qed
qed

lemma parse_value_string:
  "parse_value (Suc n) (QuoteJSONString s @ rest) = Parsed (JString s) rest"
  by (simp add: QuoteJSONString_def parse_chars_quote_units)

subsection \<open>Numbers\<close>

lemma digit_unit:
  assumes "k < 10"
  shows "is_digit (of_nat (48 + k))" "unat (of_nat (48 + k) :: 16 word) - 48 = k"
    "(of_nat (48 + k) :: 16 word) = 0x30 \<longleftrightarrow> k = 0"
proof -
  have u: "unat (of_nat (48 + k) :: 16 word) = 48 + k"
    using unat_offset [of 48 k] assms by simp
  show "is_digit (of_nat (48 + k))"
    using u assms by (simp add: is_digit_def word_le_nat_alt del: of_nat_add)
  show "unat (of_nat (48 + k) :: 16 word) - 48 = k"
    using u by (simp del: of_nat_add)
  have "(of_nat (48 + k) :: 16 word) = 0x30 \<longleftrightarrow> unat (of_nat (48 + k) :: 16 word) = unat (0x30 :: 16 word)"
    by (simp only: word_unat_eq_iff)
  then show "(of_nat (48 + k) :: 16 word) = 0x30 \<longleftrightarrow> k = 0"
    using u by (simp del: of_nat_add)
qed

lemma digits_nat_snoc: "digits_nat (ds @ [c]) = 10 * digits_nat ds + (unat c - 48)"
  by (simp add: digits_nat_def)

lemma digits_of_props:
  "list_all is_digit (digits_of n) \<and> digits_nat (digits_of n) = n \<and> digits_of n \<noteq> [] \<and>
   (hd (digits_of n) = 0x30 \<longleftrightarrow> n = 0)"
proof (induction n rule: digits_of.induct)
  case (1 n)
  show ?case
  proof (cases "n < 10")
    case True
    then have "digits_of n = [of_nat (48 + n)]"
      by (subst digits_of.simps) simp
    then show ?thesis
      using digit_unit [OF True] by (simp add: digits_nat_def del: of_nat_add)
  next
    case False
    then have d: "digits_of n = digits_of (n div 10) @ [of_nat (48 + n mod 10)]"
      by (subst digits_of.simps) simp
    have m: "n mod 10 < 10" by simp
    have "n div 10 \<noteq> 0"
      using False by (simp add: div_eq_0_iff)
    moreover have "n \<noteq> 0"
      using False by simp
    ultimately show ?thesis
      using 1 False digit_unit [OF m]
      by (simp add: d digits_nat_snoc del: of_nat_add)
  qed
qed


lemma digits_of_Cons: "\<exists>c cs. digits_of n = c # cs \<and> is_digit c \<and> (c = 0x30 \<longleftrightarrow> n = 0) \<and> list_all is_digit cs"
  using digits_of_props [of n] by (cases "digits_of n") auto

lemma digits_of_0: "digits_of 0 = [0x30]"
  by (subst digits_of.simps) simp

lemma not_digit_comma: "\<not> is_digit 0x2C"
  by (simp add: is_digit_def)

lemma takeWhile_digits_of: "takeWhile is_digit (digits_of n @ 0x2C # rest) = digits_of n"
  using digits_of_props [of n] not_digit_comma
  by (simp add: takeWhile_append2 list_all_iff)

lemma dropWhile_digits_of: "dropWhile is_digit (digits_of n @ 0x2C # rest) = 0x2C # rest"
  using digits_of_props [of n] not_digit_comma
  by (simp add: dropWhile_append2 list_all_iff)

lemma int_part_digits_of:
  "int_part (digits_of n @ 0x2C # rest) = Some (digits_of n, 0x2C # rest)"
proof (cases "n = 0")
  case True
  then show ?thesis
    by (simp add: digits_of_0 int_part_def)
next
  case False
  obtain c cs where c: "digits_of n = c # cs" "is_digit c" "c \<noteq> 0x30"
    using digits_of_Cons [of n] False by auto
  have "int_part (c # cs @ 0x2C # rest) =
      Some (takeWhile is_digit (c # cs @ 0x2C # rest), dropWhile is_digit (c # cs @ 0x2C # rest))"
    using c(2,3) by (simp add: int_part_def)
  then show ?thesis
    using takeWhile_digits_of [of n rest] dropWhile_digits_of [of n rest] by (simp add: c(1))
qed

lemma unsigned_number_digits_of:
  "unsigned_number (digits_of n @ 0x2C # rest) = Some ((int n, 0), 0x2C # rest)"
  using digits_of_props [of n]
  by (simp add: unsigned_number_def int_part_digits_of frac_part_def exp_part_def)

lemma parse_number_toString:
  "parse_number (Number_toString i @ 0x2C # rest) = Parsed (JNumber i 0) (0x2C # rest)"
proof (cases "i < 0")
  case True
  then show ?thesis
    by (simp add: Number_toString_def parse_number_def unsigned_number_digits_of)
next
  case False
  obtain c cs where c: "digits_of (nat i) = c # cs" "is_digit c"
    using digits_of_Cons [of "nat i"] by auto
  have "c \<noteq> 0x2D"
    using c(2) by (auto simp: is_digit_def)
  then have "parse_number (c # cs @ 0x2C # rest) =
      (case unsigned_number (c # cs @ 0x2C # rest) of
         Some ((m, e), rest) \<Rightarrow> Parsed (JNumber m e) rest | None \<Rightarrow> SyntaxErr)"
    by (simp add: parse_number_def)
  then show ?thesis
    using False unsigned_number_digits_of [of "nat i" rest]
    by (simp add: Number_toString_def c(1))
qed

lemma Number_toString_Cons:
  "\<exists>c cs. Number_toString i = c # cs \<and> (c = 0x2D \<or> is_digit c)"
  using digits_of_Cons [of "nat i"] by (auto simp: Number_toString_def)

lemma parse_value_number:
  "parse_value (Suc n) (Number_toString i @ 0x2C # rest) = Parsed (JNumber i 0) (0x2C # rest)"
proof -
  obtain c cs where c: "Number_toString i = c # cs" "c = 0x2D \<or> is_digit c"
    using Number_toString_Cons [of i] by auto
  then have "c \<noteq> 0x5B" "c \<noteq> 0x7B" "c \<noteq> 0x22"
    by (auto simp: is_digit_def)
  then have "parse_value (Suc n) (c # cs @ 0x2C # rest) = parse_number (c # cs @ 0x2C # rest)"
    using c(2) by simp
  then show ?thesis
    using parse_number_toString [of i rest] by (simp add: c(1))
qed

subsection \<open>Objects and arrays\<close>

lemma skip_ws_Cons: "\<not> is_json_ws c \<Longrightarrow> skip_ws (c # cs) = c # cs"
  by (simp add: skip_ws_def)

lemma skip_ws_quoted: "skip_ws (QuoteJSONString s @ r) = QuoteJSONString s @ r"
  by (simp add: QuoteJSONString_def skip_ws_def is_json_ws_def)

lemma skip_ws_member: "skip_ws (json_member k v @ r) = json_member k v @ r"
  by (simp add: json_member_def skip_ws_quoted)

lemma skip_ws_number: "skip_ws (Number_toString i @ r) = Number_toString i @ r"
proof -
  obtain c cs where c: "Number_toString i = c # cs" "c = 0x2D \<or> is_digit c"
    using Number_toString_Cons [of i] by auto
  then have "\<not> is_json_ws c"
    by (auto simp: is_json_ws_def is_digit_def)
  then show ?thesis
    by (simp add: c(1) skip_ws_Cons)
qed

lemma parse_members_step:
  assumes "parse_value n (vtext @ 0x2C # r) = Parsed v (0x2C # r)"
    and "skip_ws (vtext @ 0x2C # r) = vtext @ 0x2C # r"
    and "skip_ws r = r"
    and "parse_members n r = Parsed kvs r'"
  shows "parse_members (Suc n) (json_member k vtext @ 0x2C # r) = Parsed ((str k, v) # kvs) r'"
  using assms
  by (simp add: json_member_def QuoteJSONString_def parse_chars_quote_units skip_ws_Cons is_json_ws_def)

lemma parse_members_last:
  assumes "parse_value n (vtext @ 0x7D # r) = Parsed v (0x7D # r)"
    and "skip_ws (vtext @ 0x7D # r) = vtext @ 0x7D # r"
  shows "parse_members (Suc n) (json_member k vtext @ 0x7D # r) = Parsed [(str k, v)] r"
  using assms
  by (simp add: json_member_def QuoteJSONString_def parse_chars_quote_units skip_ws_Cons is_json_ws_def)

lemma parse_members_object:
  "parse_members (Suc (Suc (Suc (Suc (Suc (Suc (Suc n)))))))
     (json_member ''id'' (Number_toString (id' t)) @
      0x2C # json_member ''amount'' (QuoteJSONString (amount t)) @
      0x2C # json_member ''category'' (QuoteJSONString (category t)) @
      0x2C # json_member ''description'' (QuoteJSONString (description t)) @
      0x2C # json_member ''date'' (QuoteJSONString (date t)) @
      0x2C # json_member ''type'' (QuoteJSONString (type t)) @ 0x7D # rest) =
   Parsed [(str ''id'', JNumber (id' t) 0), (str ''amount'', JString (amount t)),
           (str ''category'', JString (category t)),
           (str ''description'', JString (description t)),
           (str ''date'', JString (date t)), (str ''type'', JString (type t))] rest"
  by (intro parse_members_step parse_members_last parse_value_number parse_value_string
      skip_ws_quoted skip_ws_member skip_ws_number)

lemma parse_value_object:
  "parse_value (Suc (Suc (Suc (Suc (Suc (Suc (Suc (Suc n))))))))
     (SerializeJSONObject t @ rest) = Parsed (to_json t) rest"
proof -
  have m: "json_member ''id'' v @ r = 0x22 # tl (json_member ''id'' v @ r)" for v r
    by (simp add: json_member_def QuoteJSONString_def)
  have "SerializeJSONObject t @ rest = 0x7B #
      (json_member ''id'' (Number_toString (id' t)) @
      0x2C # json_member ''amount'' (QuoteJSONString (amount t)) @
      0x2C # json_member ''category'' (QuoteJSONString (category t)) @
      0x2C # json_member ''description'' (QuoteJSONString (description t)) @
      0x2C # json_member ''date'' (QuoteJSONString (date t)) @
      0x2C # json_member ''type'' (QuoteJSONString (type t)) @ 0x7D # rest)" (is "_ = _ # ?ms")
    by (simp add: SerializeJSONObject_def)
  moreover have "skip_ws ?ms = ?ms"
    by (rule skip_ws_member)
  moreover obtain ms' where "?ms = 0x22 # ms'"
    using m by blast
  ultimately show ?thesis
    using parse_members_object [of n t rest]
    by (simp add: to_json_def)
qed


lemma SerializeJSONObject_Cons: "\<exists>cs. SerializeJSONObject t = 0x7B # cs"
  by (simp add: SerializeJSONObject_def)

lemma skip_ws_object: "skip_ws (SerializeJSONObject t @ r) = SerializeJSONObject t @ r"
  using SerializeJSONObject_Cons [of t] by (auto simp: skip_ws_Cons is_json_ws_def)

lemma join_elements_Cons:
  "join_elements (e # es) @ r = e @ (if es = [] then r else 0x2C # join_elements es @ r)"
  by (cases es) simp_all

lemma parse_value_object_fuel:
  assumes "8 \<le> g"
  shows "parse_value g (SerializeJSONObject t @ rest) = Parsed (to_json t) rest"
proof -
  obtain n where "g = Suc (Suc (Suc (Suc (Suc (Suc (Suc (Suc n)))))))"
  proof -
    obtain n where "g = 8 + n"
      using assms le_iff_add by blast
    then have "g = Suc (Suc (Suc (Suc (Suc (Suc (Suc (Suc n)))))))"
      by simp
    then show ?thesis ..
  qed
  then show ?thesis
    by (simp only: parse_value_object)
qed

lemma parse_elements_ledger:
  assumes "ts \<noteq> []" "length ts + 8 \<le> g"
  shows "parse_elements g (join_elements (map SerializeJSONObject ts) @ 0x5D # rest) =
           Parsed (map to_json ts) rest"
  using assms
proof (induction ts arbitrary: g)
  case Nil
  then show ?case by simp
next
  case (Cons t ts)
  then obtain g' where g: "g = Suc g'" "length ts + 8 \<le> g'"
    by (cases g) auto
  then have g8: "8 \<le> g'" by simp
  show ?case
  proof (cases "ts = []")
    case True
    then show ?thesis
      by (simp add: g(1) parse_value_object_fuel [OF g8] skip_ws_Cons is_json_ws_def)
  next
    case False
    have ih: "parse_elements g' (join_elements (map SerializeJSONObject ts) @ 0x5D # rest) =
        Parsed (map to_json ts) rest"
      using Cons.IH [OF False] g(2) by simp
    have sk: "skip_ws (join_elements (map SerializeJSONObject ts) @ 0x5D # rest) =
        join_elements (map SerializeJSONObject ts) @ 0x5D # rest"
      using False by (cases ts) (simp_all add: join_elements_Cons skip_ws_object del: join_elements.simps)
    show ?thesis
      using False
      by (simp add: g(1) join_elements_Cons parse_value_object_fuel [OF g8] skip_ws_Cons
          is_json_ws_def sk ih del: join_elements.simps)
  qed
qed


lemma length_SerializeJSONObject: "8 \<le> length (SerializeJSONObject t)"
  by (simp add: SerializeJSONObject_def json_member_def QuoteJSONString_def)

lemma length_join_elements:
  "8 * length ts \<le> length (join_elements (map SerializeJSONObject ts))"
proof (induction ts)
  case Nil
  show ?case by simp
next
  case (Cons t ts)
  have "length (join_elements (SerializeJSONObject t # map SerializeJSONObject ts) @ []) =
      length (SerializeJSONObject t @
        (if map SerializeJSONObject ts = [] then []
         else 0x2C # join_elements (map SerializeJSONObject ts) @ []))"
    by (simp only: join_elements_Cons)
  then show ?case
    using Cons length_SerializeJSONObject [of t] by (simp split: if_splits)
qed

lemma JSON_parse_stringify: "JSON_parse (JSON_stringify ts) = Inr (JArray (map to_json ts))"
proof (cases "ts = []")
  case True
  have "parse_value 5 [0x5B, 0x5D] = Parsed (JArray []) []"
    using parse_value.simps(2) [of 4 "[0x5B, 0x5D]"] by (simp add: skip_ws_def is_json_ws_def)
  with True show ?thesis
    by (simp add: JSON_parse_def JSON_stringify_def skip_ws_def is_json_ws_def)
next
  case False
  let ?body = "join_elements (map SerializeJSONObject ts)"
  have len: "length (JSON_stringify ts) = Suc (Suc (length ?body))"
    by (simp add: JSON_stringify_def)
  obtain F where F: "2 * length (JSON_stringify ts) + 1 = Suc F" "length ts + 8 \<le> F"
    using length_join_elements [of ts] len False by (cases ts) simp_all
  have el: "parse_elements F (?body @ 0x5D # []) = Parsed (map to_json ts) []"
    by (rule parse_elements_ledger [OF False F(2)])
  obtain t ts' where ts: "ts = t # ts'"
    using False by (cases ts) auto
  obtain cs where cs: "?body @ [0x5D] = 0x7B # cs"
    using SerializeJSONObject_Cons [of t] ts by (cases ts') auto
  have "parse_value (Suc F) (0x5B # ?body @ [0x5D]) = Parsed (JArray (map to_json ts)) []"
    using el by (simp add: cs skip_ws_Cons is_json_ws_def)
  then have pv: "parse_value (2 * length (JSON_stringify ts) + 1) (JSON_stringify ts) =
      Parsed (JArray (map to_json ts)) []"
    unfolding F(1) by (simp only: JSON_stringify_def)
  have sk: "skip_ws (JSON_stringify ts) = JSON_stringify ts"
    by (simp add: JSON_stringify_def skip_ws_Cons is_json_ws_def)
  show ?thesis
    unfolding JSON_parse_def sk pv by (simp add: skip_ws_def)
qed

lemma as_transaction_to_json:
  assumes "\<bar>id' t\<bar> \<le> 2 ^ 53"
  shows "as_transaction (to_json t) = Some t"
  using assms
  by (simp add: as_transaction_def to_json_def safe_integer_def integral_value_def string_of_def)

lemma those_as_transaction:
  assumes "\<forall>t \<in> set ts. \<bar>id' t\<bar> \<le> 2 ^ 53"
  shows "those (map as_transaction (map to_json ts)) = Some ts"
  using assms by (induction ts) (simp_all add: as_transaction_to_json)

lemma initial_transactions_stringify:
  assumes "\<forall>t \<in> set ts. \<bar>id' t\<bar> \<le> 2 ^ 53"
  shows "initial_transactions (Some (JSON_stringify ts)) = Inr (Ledger ts)"
  using those_as_transaction [OF assms]
  by (simp add: initial_transactions_def JSON_parse_stringify as_ledger_def)

subsection \<open>The parser consumes its input and never runs out of fuel\<close>

lemma length_skip_ws: "length (skip_ws cs) \<le> length cs"
  by (simp add: skip_ws_def length_dropWhile_le)

lemma with_unit_Some:
  "with_unit c r = Some (s, rest) \<longleftrightarrow> (\<exists>s'. r = Some (s', rest) \<and> s = c # s')"
  by (auto simp: with_unit_def split: option.splits)

lemma parse_chars_shorter: "parse_chars cs = Some (s, r) \<Longrightarrow> length r < length cs"
proof (induction cs arbitrary: s r rule: parse_chars.induct)
  case 1
  then show ?case by simp
next
  case (2 c cs)
  show ?case
  proof (cases "c = 0x22")
    case True
    with 2(4) show ?thesis by simp
  next
    case q: False
    show ?thesis
    proof (cases "c = 0x5C")
      case False
      with q 2(4) obtain s' where "parse_chars cs = Some (s', r)"
        by (auto simp: with_unit_Some split: if_splits)
      with 2(3) [OF q False] q False 2(4) have "length r < length cs"
        by (auto split: if_splits)
      then show ?thesis by simp
    next
      case True
      show ?thesis
      proof (cases cs)
        case Nil
        with True q 2(4) show ?thesis by simp
      next
        case (Cons e cs')
        show ?thesis
        proof (cases "e = 0x75")
          case False
          with True q Cons 2(4) obtain u s' where "unescape e = Some u" "parse_chars cs' = Some (s', r)"
            by (auto simp: with_unit_Some split: option.splits)
          with 2(2) [OF q True Cons False] have "length r < length cs'"
            by simp
          with Cons show ?thesis by simp
        next
          case u: True
          with True q Cons 2(4) obtain h1 h2 h3 h4 rest w s' where
            r: "cs' = h1 # h2 # h3 # h4 # rest" "hex4 h1 h2 h3 h4 = Some w"
              "parse_chars rest = Some (s', r)"
            by (auto simp: with_unit_Some split: option.splits list.splits)
          with 2(1) [OF q True Cons u r(1) _ _ _ r(2)] have "length r < length rest"
            by simp
          with Cons r(1) show ?thesis by simp
        qed
      qed
    qed
  qed
qed


lemma length_dropWhile_digits: "length (dropWhile is_digit cs) \<le> length cs"
  by (rule length_dropWhile_le)

lemma int_part_shorter: "int_part cs = Some (ip, r) \<Longrightarrow> length r < length cs"
  using length_dropWhile_digits [of "tl cs"]
  by (auto simp: int_part_def split: list.splits if_splits)

lemma frac_part_shorter: "frac_part cs = Some (fp, r) \<Longrightarrow> length r \<le> length cs"
  using length_dropWhile_digits [of "tl cs"]
  by (auto simp: frac_part_def split: list.splits if_splits)

lemma exp_digits_shorter: "exp_digits cs = Some (n, r) \<Longrightarrow> length r \<le> length cs"
  using length_dropWhile_digits [of cs]
  by (auto simp: exp_digits_def split: if_splits)

lemma exp_part_shorter: "exp_part cs = Some (ex, r) \<Longrightarrow> length r \<le> length cs"
  by (auto simp: exp_part_def split: list.splits if_splits dest!: exp_digits_shorter)

lemma unsigned_number_shorter:
  "unsigned_number cs = Some (me, r) \<Longrightarrow> length r < length cs"
  by (auto simp: unsigned_number_def split: option.splits
      dest!: int_part_shorter frac_part_shorter exp_part_shorter)

lemma parse_number_shorter: "parse_number cs = Parsed v r \<Longrightarrow> length r < length cs"
  by (auto simp: parse_number_def split: list.splits if_splits option.splits
      dest!: unsigned_number_shorter)

lemma parse_number_fuel: "parse_number cs \<noteq> OutOfFuel"
  by (auto simp: parse_number_def split: list.splits if_splits option.splits)

lemma take_Cons_length: "take n cs = x # xs \<Longrightarrow> 0 < n \<Longrightarrow> length cs - n < length cs"
  by (cases cs) auto

lemma parse_literal_shorter: "parse_literal cs = Parsed v r \<Longrightarrow> length r < length cs"
  by (auto simp: parse_literal_def str_def split: if_splits dest!: take_Cons_length)

lemma parse_literal_fuel: "parse_literal cs \<noteq> OutOfFuel"
  by (auto simp: parse_literal_def)


lemma parse_consumes:
  "(\<forall>cs v r. parse_value f cs = Parsed v r \<longrightarrow> length r < length cs) \<and>
   (\<forall>cs vs r. parse_elements f cs = Parsed vs r \<longrightarrow> length r < length cs) \<and>
   (\<forall>cs kvs r. parse_members f cs = Parsed kvs r \<longrightarrow> length r < length cs)"
proof (induction f)
  case 0
  show ?case by simp
next
  case (Suc n)
  have v: "length r < length cs" if "parse_value n cs = Parsed v r" for cs v r
    using Suc that by blast
  have e: "length r < length cs" if "parse_elements n cs = Parsed vs r" for cs vs r
    using Suc that by blast
  have m: "length r < length cs" if "parse_members n cs = Parsed kvs r" for cs kvs r
    using Suc that by blast
  have sk: "skip_ws xs = y # ys \<Longrightarrow> length ys < length xs" for xs y ys
    using length_skip_ws [of xs] by simp
  have sk': "length (skip_ws xs) \<le> length xs" for xs
    by (rule length_skip_ws)
  have "length r < length cs" if "parse_value (Suc n) cs = Parsed v r" for cs v r
    using that
    by (auto split: list.splits if_splits parse.splits option.splits
        dest!: e m sk parse_chars_shorter parse_number_shorter parse_literal_shorter)
  moreover have "length r < length cs" if "parse_elements (Suc n) cs = Parsed vs r" for cs vs r
  proof -
    from that obtain v r1 c r2 where a: "parse_value n cs = Parsed v r1" "skip_ws r1 = c # r2"
      and b: "c = 0x2C \<and> (\<exists>vs'. parse_elements n (skip_ws r2) = Parsed vs' r) \<or> r = r2"
      by (auto split: list.splits if_splits parse.splits)
    from b have "length r \<le> length r2"
      using e sk' [of r2] by (fastforce)
    with v [OF a(1)] sk [OF a(2)] show ?thesis by simp
  qed
  moreover have "length r < length cs" if "parse_members (Suc n) cs = Parsed kvs r" for cs kvs r
  proof -
    from that obtain q cs1 k r1 c r2 v r3 d r4 where a: "cs = q # cs1" "parse_chars cs1 = Some (k, r1)"
      "skip_ws r1 = c # r2" "parse_value n (skip_ws r2) = Parsed v r3" "skip_ws r3 = d # r4"
      and b: "d = 0x2C \<and> (\<exists>kvs'. parse_members n (skip_ws r4) = Parsed kvs' r) \<or> r = r4"
      by (auto split: list.splits if_splits parse.splits option.splits)
    from b have "length r \<le> length r4"
      using m sk' [of r4] by fastforce
    with parse_chars_shorter [OF a(2)] sk [OF a(3)] v [OF a(4)] sk' [of r2] sk [OF a(5)] a(1)
    show ?thesis by simp
  qed
  ultimately show ?case by blast
qed


lemma parse_fuel:
  "(\<forall>cs. 2 * length cs < f \<longrightarrow> parse_value f cs \<noteq> OutOfFuel) \<and>
   (\<forall>cs. 2 * length cs + 1 < f \<longrightarrow> parse_elements f cs \<noteq> OutOfFuel) \<and>
   (\<forall>cs. 2 * length cs + 1 < f \<longrightarrow> parse_members f cs \<noteq> OutOfFuel)"
proof (induction f)
  case 0
  show ?case by simp
next
  case (Suc n)
  have v: "parse_value n cs \<noteq> OutOfFuel" if "2 * length cs < n" for cs
    using Suc that by blast
  have e: "parse_elements n cs \<noteq> OutOfFuel" if "2 * length cs + 1 < n" for cs
    using Suc that by blast
  have m: "parse_members n cs \<noteq> OutOfFuel" if "2 * length cs + 1 < n" for cs
    using Suc that by blast
  have sk: "skip_ws xs = y # ys \<Longrightarrow> length ys < length xs" for xs y ys
    using length_skip_ws [of xs] by simp
  have sk': "length (skip_ws xs) \<le> length xs" for xs
    by (rule length_skip_ws)
  have c: "parse_value n cs = Parsed x r \<Longrightarrow> length r < length cs" for cs x r
    using parse_consumes [of n] by blast
  have "parse_value (Suc n) cs \<noteq> OutOfFuel" if f: "2 * length cs < Suc n" for cs
  proof (cases cs)
    case Nil
    then show ?thesis by simp
  next
    case (Cons a cs')
    have "parse_elements n (d # ds) \<noteq> OutOfFuel" if "skip_ws cs' = d # ds" for d ds
    proof (rule e)
      have "length (d # ds) \<le> length cs'"
        using sk' [of cs'] that by simp
      then show "2 * length (d # ds) + 1 < n"
        using f Cons by simp
    qed
    moreover have "parse_members n (d # ds) \<noteq> OutOfFuel" if "skip_ws cs' = d # ds" for d ds
    proof (rule m)
      have "length (d # ds) \<le> length cs'"
        using sk' [of cs'] that by simp
      then show "2 * length (d # ds) + 1 < n"
        using f Cons by simp
    qed
    ultimately show ?thesis
      using Cons parse_number_fuel [of cs] parse_literal_fuel [of cs]
      by (auto split: list.splits parse.splits option.splits)
  qed
  moreover have "parse_elements (Suc n) cs \<noteq> OutOfFuel" if f: "2 * length cs + 1 < Suc n" for cs
  proof -
    have "parse_value n cs \<noteq> OutOfFuel"
      using f by (intro v) simp
    moreover have "parse_elements n (skip_ws r2) \<noteq> OutOfFuel"
      if "parse_value n cs = Parsed x r1" "skip_ws r1 = y # r2" for x r1 y r2
    proof (rule e)
      show "2 * length (skip_ws r2) + 1 < n"
        using c [OF that(1)] sk [OF that(2)] sk' [of r2] f by simp
    qed
    ultimately show ?thesis
      by (auto split: list.splits parse.splits)
  qed
  moreover have "parse_members (Suc n) cs \<noteq> OutOfFuel" if f: "2 * length cs + 1 < Suc n" for cs
  proof -
    have pv: "parse_value n (skip_ws r2) \<noteq> OutOfFuel"
      if "cs = q # cs1" "parse_chars cs1 = Some (k, r1)" "skip_ws r1 = y # r2" for q cs1 k r1 y r2
    proof (rule v)
      show "2 * length (skip_ws r2) < n"
        using that(1) parse_chars_shorter [OF that(2)] sk [OF that(3)] sk' [of r2] f by simp
    qed
    have pm: "parse_members n (skip_ws r4) \<noteq> OutOfFuel"
      if "cs = q # cs1" "parse_chars cs1 = Some (k, r1)" "skip_ws r1 = y # r2"
        "parse_value n (skip_ws r2) = Parsed x r3" "skip_ws r3 = z # r4" for q cs1 k r1 y r2 x r3 z r4
    proof (rule m)
      show "2 * length (skip_ws r4) + 1 < n"
        using that(1) parse_chars_shorter [OF that(2)] sk [OF that(3)] sk' [of r2]
          c [OF that(4)] sk [OF that(5)] sk' [of r4] f by simp
    qed
    show ?thesis
    proof
      assume "parse_members (Suc n) cs = OutOfFuel"
      then obtain q cs1 k r1 y r2 where a: "cs = q # cs1" "parse_chars cs1 = Some (k, r1)"
        "skip_ws r1 = y # r2"
        and b: "parse_value n (skip_ws r2) = OutOfFuel \<or>
          (\<exists>x r3 z r4. parse_value n (skip_ws r2) = Parsed x r3 \<and> skip_ws r3 = z # r4 \<and>
             parse_members n (skip_ws r4) = OutOfFuel)"
        by (auto split: list.splits parse.splits option.splits if_splits)
      from b show False
        using pv [OF a] pm [OF a] by blast
    qed
  qed
  ultimately show ?case by blast
qed

lemma parse_value_enough_fuel: "parse_value (2 * length s + 1) (skip_ws s) \<noteq> OutOfFuel"
proof -
  have "2 * length (skip_ws s) < 2 * length s + 1"
    using length_skip_ws [of s] by simp
  then show ?thesis
    using parse_fuel [of "2 * length s + 1"] by blast
qed

section \<open>Loading\<close>

lemma parse_null: "JSON_parse (str ''null'') = Inr JNull"
  by code_simp

lemma parse_truncated: "JSON_parse (str ''[{'') = Inl SyntaxError"
  by code_simp

lemma JSON_parse_error_iff:
  "JSON_parse s = Inl e \<longleftrightarrow>
     parse_value (2 * length s + 1) (skip_ws s) = SyntaxErr \<or>
     (\<exists>v r. parse_value (2 * length s + 1) (skip_ws s) = Parsed v r \<and> skip_ws r \<noteq> [])"
proof (cases "parse_value (2 * length s + 1) (skip_ws s)")
  case SyntaxErr
  then show ?thesis
    by (cases e) (simp add: JSON_parse_def del: parse_value.simps)
next
  case OutOfFuel
  then show ?thesis
    using parse_value_enough_fuel [of s] by simp
next
  case (Parsed v r)
  then show ?thesis
    by (cases e) (simp add: JSON_parse_def del: parse_value.simps)
qed

text \<open>
  C5. With no stored blob the collection starts empty: \<^verbatim>\<open>getItem\<close> returns \<^verbatim>\<open>null\<close>,
  \<^verbatim>\<open>JSON.parse\<close> reads it as \<^verbatim>\<open>null\<close> and the fallback \<^verbatim>\<open>|| []\<close> applies. On the malformed blob
  \<^verbatim>\<open>[{\<close> (a write cut short) \<^verbatim>\<open>JSON.parse\<close> throws before the fallback is reached: the
  initialiser yields the \<^verbatim>\<open>SyntaxError\<close>, not the empty collection the claim states.
\<close>

theorem load_malformed_throws:
  "initial_transactions None = Inr (Ledger []) \<and>
   JSON_parse (str ''[{'') = Inl SyntaxError \<and>
   initial_transactions (Some (str ''[{'')) = Inl SyntaxError \<and>
   initial_transactions (Some (str ''[{'')) \<noteq> Inr (Ledger [])"
  by (simp add: initial_transactions_def parse_null parse_truncated)

text \<open>
  C7. For every collection whose ids are integers a Number holds exactly (magnitude at
  most \<open>2\<^sup>5\<^sup>3\<close>, as every \<^verbatim>\<open>Date.now()\<close> is), saving stores the serialised array under
  the key, parsing that text gives the array of the records' objects, and the initial
  load from that storage yields the same list of records, field for field.
\<close>

theorem persist_reload_roundtrip:
  assumes "\<forall>t \<in> set (transactions s). \<bar>id' t\<bar> \<le> 2 ^ 53"
  shows "storage (saveTransactions s) = Some (JSON_stringify (transactions s)) \<and>
         JSON_parse (JSON_stringify (transactions s)) = Inr (JArray (map to_json (transactions s))) \<and>
         initial_transactions (storage (saveTransactions s)) = Inr (Ledger (transactions s))"
proof -
  have "storage (saveTransactions s) = Some (JSON_stringify (transactions s))"
    by (simp add: saveTransactions_def)
  then show ?thesis
    using initial_transactions_stringify [OF assms] JSON_parse_stringify [of "transactions s"]
    by simp
qed

theorem persist_reload_roundtrip_witness:
  "list_all (\<lambda>t. \<bar>id' t\<bar> \<le> 2 ^ 53) (transactions ledger3) \<and>
   initial_transactions (storage (saveTransactions ledger3)) = Inr (Ledger (transactions ledger3))"
proof -
  have a: "\<forall>t \<in> set (transactions ledger3). \<bar>id' t\<bar> \<le> 2 ^ 53"
    by (simp add: ledger3_def entry_def)
  then have "list_all (\<lambda>t. \<bar>id' t\<bar> \<le> 2 ^ 53) (transactions ledger3)"
    by (simp only: list_all_iff)
  then show ?thesis
    using persist_reload_roundtrip [OF a] by blast
qed

end
